theory Spec2Isabelle
  imports Main "HOL-Library.Word"
begin

unbundle bit_operations_syntax

section \<open>Shared result type\<close>

text \<open>
  Every way in which the C++ code leaves a function other than by returning is a
  value of \<open>ee_error\<close>: a failed \<^verbatim>\<open>assert\<close>/\<^verbatim>\<open>vassert\<close> (the
  assertions are read as in a build that checks them; an access outside a vector or a
  tuple's schema counts as one), \<^verbatim>\<open>throwFatalException\<close> of the view handler, an
  exception thrown while a plan runs, \<^verbatim>\<open>exit(-1)\<close> of the IPC process, and a
  failed allocation.
\<close>

datatype ee_error =
    AssertionFailed
  | FatalException
  | ExecutorException
  | ProcessExit
  | BadAlloc

section \<open>Command surface: \<^verbatim>\<open>VoltDBIPC::execute\<close> (voltdbipc.cpp)\<close>

text \<open>Status bytes (\<^verbatim>\<open>kErrorCode_*\<close>); the enum is declared in voltdbipc.h, the
  values are those of the protocol's status-code table.\<close>

definition kErrorCode_None :: "8 word" where "kErrorCode_None = 0"
definition kErrorCode_Error :: "8 word" where "kErrorCode_Error = 1"
definition kErrorCode_Success :: "8 word" where "kErrorCode_Success = 2"
definition kErrorCode_DependencyNotFound :: "8 word" where "kErrorCode_DependencyNotFound = 3"
definition kErrorCode_DependencyFound :: "8 word" where "kErrorCode_DependencyFound = 4"
definition kErrorCode_RetrieveDependency :: "8 word" where "kErrorCode_RetrieveDependency = 5"

text \<open>The member functions of \<^verbatim>\<open>VoltDBIPC\<close> that \<^verbatim>\<open>execute\<close> can call.\<close>

datatype ipc_handler =
    Call_initialize
  | Call_loadCatalog
  | Call_updateCatalog
  | Call_toggleProfiler
  | Call_tick
  | Call_getStats
  | Call_executeQueryPlanFragmentsAndGetResults
  | Call_executePlanFragmentAndGetResults
  | Call_loadTable
  | Call_releaseUndoToken
  | Call_undoUndoToken
  | Call_executeCustomPlanFragmentAndGetResults
  | Call_setLogLevels
  | Call_quiesce
  | Call_activateCopyOnWrite
  | Call_cowSerializeMore
  | Call_stub

text \<open>The \<^verbatim>\<open>switch (ntohl(cmd->command))\<close> of \<^verbatim>\<open>execute\<close>, case by case.\<close>

definition execute_switch :: "32 word \<Rightarrow> ipc_handler" where
  "execute_switch command =
     (if command = 0 then Call_initialize
      else if command = 2 then Call_loadCatalog
      else if command = 3 then Call_toggleProfiler
      else if command = 4 then Call_tick
      else if command = 5 then Call_getStats
      else if command = 6 then Call_executeQueryPlanFragmentsAndGetResults
      else if command = 7 then Call_executePlanFragmentAndGetResults
      else if command = 9 then Call_loadTable
      else if command = 10 then Call_releaseUndoToken
      else if command = 11 then Call_undoUndoToken
      else if command = 12 then Call_executeCustomPlanFragmentAndGetResults
      else if command = 13 then Call_setLogLevels
      else if command = 16 then Call_quiesce
      else if command = 17 then Call_activateCopyOnWrite
      else if command = 18 then Call_cowSerializeMore
      else if command = 19 then Call_loadCatalog
      else Call_stub)"

text \<open>The two catalog operations of the engine, as the IPC layer invokes them; the
  engine is recorded by the sequence of catalog operations it has been asked to do.\<close>

datatype engine_catalog_op =
    Engine_loadCatalog string
  | Engine_updateCatalog string

record VoltDBIPC =
  m_engine :: "engine_catalog_op list option"

text \<open>\<^verbatim>\<open>std::string(cmd->data)\<close>: the payload up to its first NUL byte.\<close>

definition c_str :: "string \<Rightarrow> string" where
  "c_str data = takeWhile (\<lambda>c. c \<noteq> CHR 0x00) data"

text \<open>\<^verbatim>\<open>VoltDBIPC::loadCatalog\<close> and \<^verbatim>\<open>VoltDBIPC::updateCatalog\<close>. The
  parameter \<open>engine_ok\<close> is the boolean the engine returns. Both functions start
  with \<^verbatim>\<open>assert(m_engine)\<close>, so a null engine stops there, before the explicit
  \<^verbatim>\<open>return kErrorCode_Error\<close> that follows the assertion.\<close>

definition VoltDBIPC_loadCatalog ::
  "(engine_catalog_op \<Rightarrow> bool) \<Rightarrow> VoltDBIPC \<Rightarrow> string \<Rightarrow> ee_error + 8 word \<times> VoltDBIPC" where
  "VoltDBIPC_loadCatalog engine_ok ipc data =
     (case m_engine ipc of
        None \<Rightarrow> Inl AssertionFailed
      | Some ops \<Rightarrow>
          Inr (if engine_ok (Engine_loadCatalog (c_str data)) then kErrorCode_Success
               else kErrorCode_Error,
               ipc\<lparr>m_engine := Some (ops @ [Engine_loadCatalog (c_str data)])\<rparr>))"

definition VoltDBIPC_updateCatalog ::
  "(engine_catalog_op \<Rightarrow> bool) \<Rightarrow> VoltDBIPC \<Rightarrow> string \<Rightarrow> ee_error + 8 word \<times> VoltDBIPC" where
  "VoltDBIPC_updateCatalog engine_ok ipc data =
     (case m_engine ipc of
        None \<Rightarrow> Inl AssertionFailed
      | Some ops \<Rightarrow>
          Inr (if engine_ok (Engine_updateCatalog (c_str data)) then kErrorCode_Success
               else kErrorCode_Error,
               ipc\<lparr>m_engine := Some (ops @ [Engine_updateCatalog (c_str data)])\<rparr>))"

text \<open>The catalog operations that one \<^verbatim>\<open>execute\<close> call adds to the engine. The
  handlers other than the two catalog ones invoke no catalog operation.\<close>

definition execute_catalog ::
  "(engine_catalog_op \<Rightarrow> bool) \<Rightarrow> VoltDBIPC \<Rightarrow> 32 word \<Rightarrow> string \<Rightarrow> ee_error + VoltDBIPC" where
  "execute_catalog engine_ok ipc command data =
     (case execute_switch command of
        Call_loadCatalog \<Rightarrow> map_sum id snd (VoltDBIPC_loadCatalog engine_ok ipc data)
      | Call_updateCatalog \<Rightarrow> map_sum id snd (VoltDBIPC_updateCatalog engine_ok ipc data)
      | _ \<Rightarrow> Inr ipc)"

section \<open>Undo tokens: \<^verbatim>\<open>VoltDBEngine::setUndoToken\<close> (VoltDBEngine.h)\<close>

definition INT64_MAX :: "64 word" where
  "INT64_MAX = 0x7FFFFFFFFFFFFFFF"

record UndoQuantum =
  m_undoToken :: "64 word"

record VoltDBEngine =
  m_undoLog :: "UndoQuantum list"
  m_currentUndoQuantum :: "UndoQuantum option"

text \<open>Modelled from the spec: \<^verbatim>\<open>UndoLog::generateUndoQuantum\<close> (UndoLog.h is not
  among the sources). It opens a new quantum tagged with the token it is given and
  appends it to the log.\<close>

definition generateUndoQuantum :: "UndoQuantum list \<Rightarrow> 64 word \<Rightarrow> UndoQuantum \<times> UndoQuantum list" where
  "generateUndoQuantum log nextUndoToken =
     (\<lparr>m_undoToken = nextUndoToken\<rparr>, log @ [\<lparr>m_undoToken = nextUndoToken\<rparr>])"

text \<open>\<^verbatim>\<open>setUndoToken\<close>, branch by branch; \<^verbatim>\<open>vassert\<close> failing is
  \<open>Inl AssertionFailed\<close>. The comparison of \<^verbatim>\<open>int64_t\<close> values is signed.\<close>

definition setUndoToken :: "VoltDBEngine \<Rightarrow> 64 word \<Rightarrow> ee_error + VoltDBEngine" where
  "setUndoToken e nextUndoToken =
     (if nextUndoToken = INT64_MAX then Inr e
      else
        (case m_currentUndoQuantum e of
           Some cur \<Rightarrow>
             (if m_undoToken cur = nextUndoToken then Inr e
              else if \<not> (m_undoToken cur <s nextUndoToken) then Inl AssertionFailed
              else
                (let (q, log') = generateUndoQuantum (m_undoLog e) nextUndoToken
                 in Inr (e\<lparr>m_undoLog := log', m_currentUndoQuantum := Some q\<rparr>)))
         | None \<Rightarrow>
             (let (q, log') = generateUndoQuantum (m_undoLog e) nextUndoToken
              in Inr (e\<lparr>m_undoLog := log', m_currentUndoQuantum := Some q\<rparr>))))"

text \<open>A session: successive \<^verbatim>\<open>setUndoToken\<close> calls, stopping at the first failure.\<close>

fun setUndoTokens :: "VoltDBEngine \<Rightarrow> 64 word list \<Rightarrow> ee_error + VoltDBEngine" where
  "setUndoTokens e [] = Inr e"
| "setUndoTokens e (t # ts) =
     (case setUndoToken e t of Inl err \<Rightarrow> Inl err | Inr e' \<Rightarrow> setUndoTokens e' ts)"

text \<open>The invariant of the engine between calls when nothing is released or undone:
  the tokens in the log increase strictly and the current quantum is the last one.\<close>

definition undo_log_ordered :: "VoltDBEngine \<Rightarrow> bool" where
  "undo_log_ordered e \<longleftrightarrow>
     sorted_wrt (\<lambda>a b. m_undoToken a <s m_undoToken b) (m_undoLog e) \<and>
     (case m_currentUndoQuantum e of
        None \<Rightarrow> m_undoLog e = []
      | Some q \<Rightarrow> m_undoLog e \<noteq> [] \<and> last (m_undoLog e) = q)"

text \<open>Engines used as concrete inputs.\<close>

definition engine5 :: VoltDBEngine where
  "engine5 = \<lparr>m_undoLog = [\<lparr>m_undoToken = 5\<rparr>], m_currentUndoQuantum = Some \<lparr>m_undoToken = 5\<rparr>\<rparr>"

section \<open>Materialized-view maintenance (MaterializedViewHandler.cpp)\<close>

subsection \<open>Values, tuples, vectors\<close>

text \<open>Modelled from the spec: \<^verbatim>\<open>NValue\<close> (common/NValue.hpp is not among the
  sources). A value is SQL NULL or an integer. Integers are unbounded here, so the
  overflow exception of the 64-bit arithmetic is left out. \<^verbatim>\<open>compare\<close> returns a
  negative number, zero or a positive number; NULL sorts below every integer and
  equal to NULL. Arithmetic on NULL gives NULL.\<close>

datatype NValue = NullValue | IntValue int

definition isNull :: "NValue \<Rightarrow> bool" where
  "isNull v \<longleftrightarrow> v = NullValue"

fun op_add :: "NValue \<Rightarrow> NValue \<Rightarrow> NValue" where
  "op_add (IntValue a) (IntValue b) = IntValue (a + b)"
| "op_add _ _ = NullValue"

fun op_subtract :: "NValue \<Rightarrow> NValue \<Rightarrow> NValue" where
  "op_subtract (IntValue a) (IntValue b) = IntValue (a - b)"
| "op_subtract _ _ = NullValue"

fun compare :: "NValue \<Rightarrow> NValue \<Rightarrow> int" where
  "compare NullValue NullValue = 0"
| "compare NullValue (IntValue b) = - 1"
| "compare (IntValue a) NullValue = 1"
| "compare (IntValue a) (IntValue b) = (if a < b then - 1 else if a = b then 0 else 1)"

fun isZero :: "NValue \<Rightarrow> bool" where
  "isZero (IntValue a) = (a = 0)"
| "isZero NullValue = False"

type_synonym TableTuple = "NValue list"

text \<open>Modelled from the spec: \<^verbatim>\<open>TableTuple::getNValue\<close> and
  \<^verbatim>\<open>TableTuple::setNValue\<close> (common/tabletuple.h is not among the sources). A
  tuple handle is \<open>None\<close> when it is the null tuple; a column index outside the
  tuple fails the accessor's assertion.\<close>

definition getNValue :: "TableTuple option \<Rightarrow> nat \<Rightarrow> ee_error + NValue" where
  "getNValue t idx =
     (case t of
        None \<Rightarrow> Inl AssertionFailed
      | Some vs \<Rightarrow> if idx < length vs then Inr (vs ! idx) else Inl AssertionFailed)"

definition setNValue :: "TableTuple \<Rightarrow> nat \<Rightarrow> NValue \<Rightarrow> ee_error + TableTuple" where
  "setNValue t idx v = (if idx < length t then Inr (t[idx := v]) else Inl AssertionFailed)"

text \<open>\<^verbatim>\<open>operator[]\<close> of \<^verbatim>\<open>std::vector\<close> and of \<^verbatim>\<open>NValueArray\<close>.\<close>

definition at_index :: "'a list \<Rightarrow> nat \<Rightarrow> ee_error + 'a" where
  "at_index xs i = (if i < length xs then Inr (xs ! i) else Inl AssertionFailed)"

subsection \<open>The handler and the state it works on\<close>

text \<open>The aggregate types a view column can have; \<open>EXPRESSION_TYPE_INVALID\<close>
  stands for every other value of the enum.\<close>

datatype ExpressionType =
    EXPRESSION_TYPE_AGGREGATE_COUNT_STAR
  | EXPRESSION_TYPE_AGGREGATE_SUM
  | EXPRESSION_TYPE_AGGREGATE_COUNT
  | EXPRESSION_TYPE_AGGREGATE_MIN
  | EXPRESSION_TYPE_AGGREGATE_MAX
  | EXPRESSION_TYPE_INVALID

type_synonym ExecutorVector = nat
type_synonym PersistentTable = nat

text \<open>The members of \<^verbatim>\<open>MaterializedViewHandler\<close> that are fixed once the
  constructor has run. Executor vectors and source tables are known by an identity.\<close>

record MaterializedViewHandler =
  m_groupByColumnCount :: nat
  m_aggColumnCount :: nat
  m_aggTypes :: "ExpressionType list"
  m_countStarColumnIndex :: nat
  m_createQueryExecutorVector :: ExecutorVector
  m_minMaxExecutorVectors :: "ExecutorVector list"

text \<open>One run of a plan: which plan, the parameter array it saw and the source tables
  that were in delta mode while it ran.\<close>

record exec_event =
  ev_plan :: ExecutorVector
  ev_params :: "NValue list"
  ev_delta :: "PersistentTable set"

text \<open>What the handler's member functions read and write: the rows of the destination
  table, the handler's two scratch tuples (\<open>m_existingTuple\<close> points at a row of
  the destination table, by position, or is the null tuple), the parameter array of the
  executor context, the set of source tables in delta mode, and the plans run so far.\<close>

record ee_state =
  m_destTable :: "TableTuple list"
  m_existingTuple :: "nat option"
  m_updatedTuple :: TableTuple
  ec_params :: "NValue list"
  delta_tables :: "PersistentTable set"
  ec_executed :: "exec_event list"

definition existingTuple :: "ee_state \<Rightarrow> TableTuple option" where
  "existingTuple s =
     (case m_existingTuple s of
        None \<Rightarrow> None
      | Some i \<Rightarrow> if i < length (m_destTable s) then Some (m_destTable s ! i) else None)"

text \<open>Modelled from the spec: the operations of \<^verbatim>\<open>PersistentTable\<close> on the
  destination table (storage/persistenttable.h is not among the sources): insert a copy
  of a tuple, overwrite the row \<open>m_existingTuple\<close> points at with
  \<open>m_updatedTuple\<close>, delete the row \<open>m_existingTuple\<close> points at. Constraint
  violations are left out.\<close>

definition insertPersistentTuple :: "TableTuple \<Rightarrow> ee_state \<Rightarrow> ee_state" where
  "insertPersistentTuple t s = s\<lparr>m_destTable := m_destTable s @ [t]\<rparr>"

definition updateTupleWithSpecificIndexes :: "ee_state \<Rightarrow> (ee_error + unit) \<times> ee_state" where
  "updateTupleWithSpecificIndexes s =
     (case m_existingTuple s of
        None \<Rightarrow> (Inl AssertionFailed, s)
      | Some i \<Rightarrow>
          if i < length (m_destTable s)
          then (Inr (), s\<lparr>m_destTable := (m_destTable s)[i := m_updatedTuple s]\<rparr>)
          else (Inl AssertionFailed, s))"

definition deleteTuple :: "ee_state \<Rightarrow> (ee_error + unit) \<times> ee_state" where
  "deleteTuple s =
     (case m_existingTuple s of
        None \<Rightarrow> (Inl AssertionFailed, s)
      | Some i \<Rightarrow>
          if i < length (m_destTable s)
          then (Inr (), s\<lparr>m_destTable := take i (m_destTable s) @ drop (Suc i) (m_destTable s)\<rparr>)
          else (Inl AssertionFailed, s))"

text \<open>Modelled from the spec: the probe of the primary-key index by group-by key
  (indexes/tableindex.h is not among the sources): the position of the row whose
  group-by columns equal those of the key tuple, if there is one.\<close>

fun nextValueAtKey :: "nat \<Rightarrow> TableTuple \<Rightarrow> TableTuple list \<Rightarrow> nat option" where
  "nextValueAtKey gb key [] = None"
| "nextValueAtKey gb key (r # rs) =
     (if take gb r = take gb key then Some 0 else map_option Suc (nextValueAtKey gb key rs))"

text \<open>Modelled from the spec: \<^verbatim>\<open>ScopedDeltaTableContext\<close>: its constructor puts the
  table into delta mode, its destructor takes it out.\<close>

definition enterDeltaMode :: "PersistentTable \<Rightarrow> ee_state \<Rightarrow> ee_state" where
  "enterDeltaMode t s = s\<lparr>delta_tables := insert t (delta_tables s)\<rparr>"

definition exitDeltaMode :: "PersistentTable \<Rightarrow> ee_state \<Rightarrow> ee_state" where
  "exitDeltaMode t s = s\<lparr>delta_tables := delta_tables s - {t}\<rparr>"

text \<open>\<^verbatim>\<open>ExecutorContext::executeExecutors\<close>. What a plan returns is a parameter
  \<open>exec\<close>: the result rows, or \<open>None\<close> when the plan throws, from the plan, the
  parameter array and the tables in delta mode. The run is recorded.\<close>

type_synonym plan_runner = "ExecutorVector \<Rightarrow> NValue list \<Rightarrow> PersistentTable set \<Rightarrow> TableTuple list option"

definition executeExecutors ::
  "plan_runner \<Rightarrow> ExecutorVector \<Rightarrow> ee_state \<Rightarrow> (ee_error + TableTuple list) \<times> ee_state" where
  "executeExecutors exec ev s =
     (case exec ev (ec_params s) (delta_tables s) of
        None \<Rightarrow>
          (Inl ExecutorException,
           s\<lparr>ec_executed := ec_executed s @
               [\<lparr>ev_plan = ev, ev_params = ec_params s, ev_delta = delta_tables s\<rparr>]\<rparr>)
      | Some rows \<Rightarrow>
          (Inr rows,
           s\<lparr>ec_executed := ec_executed s @
               [\<lparr>ev_plan = ev, ev_params = ec_params s, ev_delta = delta_tables s\<rparr>]\<rparr>))"

subsection \<open>\<^verbatim>\<open>findExistingTuple\<close>\<close>

text \<open>Without group-by columns the iterator's first row is taken; on an empty table
  the iterator leaves \<open>m_existingTuple\<close> as it was, and the assertion decides.\<close>

definition findExistingTuple ::
  "MaterializedViewHandler \<Rightarrow> TableTuple \<Rightarrow> ee_state \<Rightarrow> (ee_error + bool) \<times> ee_state" where
  "findExistingTuple h deltaTuple s =
     (if m_groupByColumnCount h = 0 then
        (case m_destTable s of
           [] \<Rightarrow> (if m_existingTuple s = None then (Inl AssertionFailed, s) else (Inr True, s))
         | r # rs \<Rightarrow> (Inr True, s\<lparr>m_existingTuple := Some 0\<rparr>))
      else
        (case nextValueAtKey (m_groupByColumnCount h) deltaTuple (m_destTable s) of
           None \<Rightarrow> (Inr False, s\<lparr>m_existingTuple := None\<rparr>)
         | Some i \<Rightarrow> (Inr True, s\<lparr>m_existingTuple := Some i\<rparr>)))"

subsection \<open>\<^verbatim>\<open>mergeTupleForInsert\<close>\<close>

text \<open>The first loop of both merge functions: the group-by columns are copied from
  the existing tuple.\<close>

function copyGroupByColumns ::
  "nat \<Rightarrow> TableTuple option \<Rightarrow> nat \<Rightarrow> TableTuple \<Rightarrow> (ee_error + unit) \<times> TableTuple" where
  "copyGroupByColumns gb existing colindex updated =
     (if colindex < gb then
        (case getNValue existing colindex of
           Inl e \<Rightarrow> (Inl e, updated)
         | Inr v \<Rightarrow>
             (case setNValue updated colindex v of
                Inl e \<Rightarrow> (Inl e, updated)
              | Inr updated' \<Rightarrow> copyGroupByColumns gb existing (Suc colindex) updated'))
      else (Inr (), updated))"
  by pat_completeness auto
termination
  by (relation "measure (\<lambda>(gb, existing, colindex, updated). gb - colindex)") auto

text \<open>The \<^verbatim>\<open>switch\<close> on the aggregate type, taken when the delta value is not null.\<close>

fun mergeInsertSwitch :: "ExpressionType \<Rightarrow> NValue \<Rightarrow> NValue \<Rightarrow> ee_error + NValue" where
  "mergeInsertSwitch EXPRESSION_TYPE_AGGREGATE_SUM existingValue newValue =
     (if \<not> isNull existingValue then Inr (op_add existingValue newValue) else Inr newValue)"
| "mergeInsertSwitch EXPRESSION_TYPE_AGGREGATE_COUNT existingValue newValue =
     (if \<not> isNull existingValue then Inr (op_add existingValue newValue) else Inr newValue)"
| "mergeInsertSwitch EXPRESSION_TYPE_AGGREGATE_COUNT_STAR existingValue newValue =
     (if \<not> isNull existingValue then Inr (op_add existingValue newValue) else Inr newValue)"
| "mergeInsertSwitch EXPRESSION_TYPE_AGGREGATE_MIN existingValue newValue =
     (if \<not> isNull existingValue \<and> compare newValue existingValue \<ge> 0
      then Inr existingValue else Inr newValue)"
| "mergeInsertSwitch EXPRESSION_TYPE_AGGREGATE_MAX existingValue newValue =
     (if \<not> isNull existingValue \<and> compare newValue existingValue \<le> 0
      then Inr existingValue else Inr newValue)"
| "mergeInsertSwitch EXPRESSION_TYPE_INVALID existingValue newValue = Inl AssertionFailed"

definition mergeInsertValue ::
  "MaterializedViewHandler \<Rightarrow> nat \<Rightarrow> NValue \<Rightarrow> NValue \<Rightarrow> ee_error + NValue" where
  "mergeInsertValue h aggIndex existingValue newValue =
     (if isNull newValue then Inr existingValue
      else
        (case at_index (m_aggTypes h) aggIndex of
           Inl e \<Rightarrow> Inl e
         | Inr aggType \<Rightarrow> mergeInsertSwitch aggType existingValue newValue))"

function mergeInsertAggregates ::
  "MaterializedViewHandler \<Rightarrow> TableTuple option \<Rightarrow> TableTuple \<Rightarrow> nat \<Rightarrow> nat \<Rightarrow> TableTuple
     \<Rightarrow> (ee_error + unit) \<times> TableTuple" where
  "mergeInsertAggregates h existing deltaTuple aggIndex columnIndex updated =
     (if aggIndex < m_aggColumnCount h then
        (case getNValue existing columnIndex of
           Inl e \<Rightarrow> (Inl e, updated)
         | Inr existingValue \<Rightarrow>
             (case getNValue (Some deltaTuple) columnIndex of
                Inl e \<Rightarrow> (Inl e, updated)
              | Inr newValue \<Rightarrow>
                  (case mergeInsertValue h aggIndex existingValue newValue of
                     Inl e \<Rightarrow> (Inl e, updated)
                   | Inr merged \<Rightarrow>
                       (case setNValue updated columnIndex merged of
                          Inl e \<Rightarrow> (Inl e, updated)
                        | Inr updated' \<Rightarrow>
                            mergeInsertAggregates h existing deltaTuple
                              (Suc aggIndex) (Suc columnIndex) updated'))))
      else (Inr (), updated))"
  by pat_completeness auto
termination
  by (relation "measure (\<lambda>(h, existing, deltaTuple, aggIndex, columnIndex, updated).
        m_aggColumnCount h - aggIndex)") auto

definition mergeTupleForInsert ::
  "MaterializedViewHandler \<Rightarrow> TableTuple \<Rightarrow> ee_state \<Rightarrow> (ee_error + unit) \<times> ee_state" where
  "mergeTupleForInsert h deltaTuple s =
     (case copyGroupByColumns (m_groupByColumnCount h) (existingTuple s) 0 (m_updatedTuple s) of
        (Inl e, u) \<Rightarrow> (Inl e, s\<lparr>m_updatedTuple := u\<rparr>)
      | (Inr _, u) \<Rightarrow>
          (case mergeInsertAggregates h (existingTuple s) deltaTuple 0 (m_groupByColumnCount h) u of
             (r, u') \<Rightarrow> (r, s\<lparr>m_updatedTuple := u'\<rparr>)))"

subsection \<open>\<^verbatim>\<open>handleTupleInsert\<close>\<close>

text \<open>The body of the \<^verbatim>\<open>while\<close> loop, then the loop over the delta rows.\<close>

definition handleTupleInsert_row ::
  "MaterializedViewHandler \<Rightarrow> TableTuple \<Rightarrow> ee_state \<Rightarrow> (ee_error + unit) \<times> ee_state" where
  "handleTupleInsert_row h deltaTuple s =
     (case findExistingTuple h deltaTuple s of
        (Inl e, s1) \<Rightarrow> (Inl e, s1)
      | (Inr found, s1) \<Rightarrow>
          if found then
            (case mergeTupleForInsert h deltaTuple s1 of
               (Inl e, s2) \<Rightarrow> (Inl e, s2)
             | (Inr _, s2) \<Rightarrow> updateTupleWithSpecificIndexes s2)
          else (Inr (), insertPersistentTuple deltaTuple s1))"

fun handleTupleInsert_rows ::
  "MaterializedViewHandler \<Rightarrow> TableTuple list \<Rightarrow> ee_state \<Rightarrow> (ee_error + unit) \<times> ee_state" where
  "handleTupleInsert_rows h [] s = (Inr (), s)"
| "handleTupleInsert_rows h (deltaTuple # rest) s =
     (case handleTupleInsert_row h deltaTuple s of
        (Inl e, s') \<Rightarrow> (Inl e, s')
      | (Inr _, s') \<Rightarrow> handleTupleInsert_rows h rest s')"

text \<open>The delta-mode context is a local object here: it is destroyed however the
  function is left.\<close>

definition handleTupleInsert ::
  "plan_runner \<Rightarrow> MaterializedViewHandler \<Rightarrow> PersistentTable \<Rightarrow> ee_state
     \<Rightarrow> (ee_error + unit) \<times> ee_state" where
  "handleTupleInsert exec h sourceTable s =
     (case executeExecutors exec (m_createQueryExecutorVector h) (enterDeltaMode sourceTable s) of
        (Inl e, s1) \<Rightarrow> (Inl e, exitDeltaMode sourceTable s1)
      | (Inr delta, s1) \<Rightarrow>
          (case handleTupleInsert_rows h delta s1 of
             (r, s2) \<Rightarrow> (r, exitDeltaMode sourceTable s2)))"

subsection \<open>\<^verbatim>\<open>fallbackMinMaxColumn\<close>\<close>

text \<open>The loop that saves the parameters into \<open>backups\<close> and overwrites them with
  the group-by key of the existing tuple.\<close>

function fallbackBackup ::
  "nat \<Rightarrow> TableTuple option \<Rightarrow> nat \<Rightarrow> NValue list \<Rightarrow> NValue list
     \<Rightarrow> (ee_error + unit) \<times> NValue list \<times> NValue list" where
  "fallbackBackup gb existing i backups ps =
     (if i < gb then
        (case at_index ps i of
           Inl e \<Rightarrow> (Inl e, backups, ps)
         | Inr p \<Rightarrow>
             (case getNValue existing i of
                Inl e \<Rightarrow> (Inl e, backups[i := p], ps)
              | Inr v \<Rightarrow> fallbackBackup gb existing (Suc i) (backups[i := p]) (ps[i := v])))
      else (Inr (), backups, ps))"
  by pat_completeness auto
termination
  by (relation "measure (\<lambda>(gb, existing, i, backups, ps). gb - i)") auto

text \<open>The loop that puts the saved parameters back, slots \<open>0\<close> to \<open>gb\<close>.\<close>

function fallbackRestore ::
  "nat \<Rightarrow> nat \<Rightarrow> NValue list \<Rightarrow> NValue list \<Rightarrow> (ee_error + unit) \<times> NValue list" where
  "fallbackRestore gb i backups ps =
     (if i \<le> gb then
        (case at_index backups i of
           Inl e \<Rightarrow> (Inl e, ps)
         | Inr b \<Rightarrow>
             (if i < length ps then fallbackRestore gb (Suc i) backups (ps[i := b])
              else (Inl AssertionFailed, ps)))
      else (Inr (), ps))"
  by pat_completeness auto
termination
  by (relation "measure (\<lambda>(gb, i, backups, ps). Suc gb - i)") auto

text \<open>The vector \<open>backups\<close> has \<open>m_groupByColumnCount + 1\<close> slots, each written
  before it is read; they start as NULL here. The null value that \<open>newValue\<close> starts
  with is \<open>NullValue\<close> whatever the column's type.\<close>

definition fallbackMinMaxColumn ::
  "plan_runner \<Rightarrow> MaterializedViewHandler \<Rightarrow> nat \<Rightarrow> nat \<Rightarrow> ee_state
     \<Rightarrow> (ee_error + NValue) \<times> ee_state" where
  "fallbackMinMaxColumn exec h columnIndex minMaxColumnIndex s =
     (case fallbackBackup (m_groupByColumnCount h) (existingTuple s) 0
             (replicate (m_groupByColumnCount h + 1) NullValue) (ec_params s) of
        (Inl e, backups, ps) \<Rightarrow> (Inl e, s\<lparr>ec_params := ps\<rparr>)
      | (Inr _, backups, ps) \<Rightarrow>
          (case at_index ps (m_groupByColumnCount h) of
             Inl e \<Rightarrow> (Inl e, s\<lparr>ec_params := ps\<rparr>)
           | Inr p \<Rightarrow>
               (case getNValue (existingTuple s) columnIndex of
                  Inl e \<Rightarrow> (Inl e, s\<lparr>ec_params := ps\<rparr>)
                | Inr v \<Rightarrow>
                    (case at_index (m_minMaxExecutorVectors h) minMaxColumnIndex of
                       Inl e \<Rightarrow> (Inl e, s\<lparr>ec_params := ps[m_groupByColumnCount h := v]\<rparr>)
                     | Inr ev \<Rightarrow>
                         (case executeExecutors exec ev
                                 (s\<lparr>ec_params := ps[m_groupByColumnCount h := v]\<rparr>) of
                            (Inl e, s1) \<Rightarrow> (Inl e, s1)
                          | (Inr rows, s1) \<Rightarrow>
                              (case (case rows of
                                       [] \<Rightarrow> Inr NullValue
                                     | resultTuple # _ \<Rightarrow> getNValue (Some resultTuple) 0) of
                                 Inl e \<Rightarrow> (Inl e, s1)
                               | Inr newValue \<Rightarrow>
                                   (case fallbackRestore (m_groupByColumnCount h) 0
                                           (backups[m_groupByColumnCount h := p]) (ec_params s1) of
                                      (Inl e, ps') \<Rightarrow> (Inl e, s1\<lparr>ec_params := ps'\<rparr>)
                                    | (Inr _, ps') \<Rightarrow> (Inr newValue, s1\<lparr>ec_params := ps'\<rparr>))))))))"

subsection \<open>\<^verbatim>\<open>mergeTupleForDelete\<close>\<close>

text \<open>The loop of the branch \<^verbatim>\<open>newCount.isZero()\<close>: counts become zero, the other
  aggregates NULL.\<close>

function mergeDeleteZero ::
  "MaterializedViewHandler \<Rightarrow> nat \<Rightarrow> nat \<Rightarrow> TableTuple \<Rightarrow> (ee_error + unit) \<times> TableTuple" where
  "mergeDeleteZero h aggIndex columnIndex updated =
     (if aggIndex < m_aggColumnCount h then
        (case at_index (m_aggTypes h) aggIndex of
           Inl e \<Rightarrow> (Inl e, updated)
         | Inr aggType \<Rightarrow>
             (case setNValue updated columnIndex
                     (if aggType = EXPRESSION_TYPE_AGGREGATE_COUNT
                         \<or> aggType = EXPRESSION_TYPE_AGGREGATE_COUNT_STAR
                      then IntValue 0 else NullValue) of
                Inl e \<Rightarrow> (Inl e, updated)
              | Inr updated' \<Rightarrow> mergeDeleteZero h (Suc aggIndex) (Suc columnIndex) updated'))
      else (Inr (), updated))"
  by pat_completeness auto
termination
  by (relation "measure (\<lambda>(h, aggIndex, columnIndex, updated). m_aggColumnCount h - aggIndex)") auto

text \<open>The new value of one aggregate column in the other branch: \<open>newValue\<close> starts
  as the existing value and the \<^verbatim>\<open>switch\<close> runs when the delta value is not null.\<close>

definition mergeDeleteValue ::
  "plan_runner \<Rightarrow> MaterializedViewHandler \<Rightarrow> ExpressionType \<Rightarrow> NValue \<Rightarrow> NValue \<Rightarrow> nat \<Rightarrow> nat
     \<Rightarrow> ee_state \<Rightarrow> (ee_error + NValue) \<times> ee_state" where
  "mergeDeleteValue exec h aggType existingValue deltaValue columnIndex minMaxColumnIndex s =
     (if \<not> isNull deltaValue then
        (case aggType of
           EXPRESSION_TYPE_AGGREGATE_COUNT_STAR \<Rightarrow> (Inr (op_subtract existingValue deltaValue), s)
         | EXPRESSION_TYPE_AGGREGATE_SUM \<Rightarrow> (Inr (op_subtract existingValue deltaValue), s)
         | EXPRESSION_TYPE_AGGREGATE_COUNT \<Rightarrow> (Inr (op_subtract existingValue deltaValue), s)
         | EXPRESSION_TYPE_AGGREGATE_MIN \<Rightarrow>
             (if compare existingValue deltaValue = 0
              then fallbackMinMaxColumn exec h columnIndex minMaxColumnIndex s
              else (Inr existingValue, s))
         | EXPRESSION_TYPE_AGGREGATE_MAX \<Rightarrow>
             (if compare existingValue deltaValue = 0
              then fallbackMinMaxColumn exec h columnIndex minMaxColumnIndex s
              else (Inr existingValue, s))
         | EXPRESSION_TYPE_INVALID \<Rightarrow> (Inl AssertionFailed, s))
      else (Inr existingValue, s))"

function mergeDeleteAggregates ::
  "plan_runner \<Rightarrow> MaterializedViewHandler \<Rightarrow> TableTuple \<Rightarrow> nat \<Rightarrow> nat \<Rightarrow> nat \<Rightarrow> ee_state
     \<Rightarrow> (ee_error + unit) \<times> ee_state" where
  "mergeDeleteAggregates exec h deltaTuple aggIndex columnIndex minMaxColumnIndex s =
     (if aggIndex < m_aggColumnCount h then
        (case getNValue (existingTuple s) columnIndex of
           Inl e \<Rightarrow> (Inl e, s)
         | Inr existingValue \<Rightarrow>
             (case getNValue (Some deltaTuple) columnIndex of
                Inl e \<Rightarrow> (Inl e, s)
              | Inr deltaValue \<Rightarrow>
                  (case at_index (m_aggTypes h) aggIndex of
                     Inl e \<Rightarrow> (Inl e, s)
                   | Inr aggType \<Rightarrow>
                       (case mergeDeleteValue exec h aggType existingValue deltaValue
                               columnIndex minMaxColumnIndex s of
                          (Inl e, s1) \<Rightarrow> (Inl e, s1)
                        | (Inr newValue, s1) \<Rightarrow>
                            (case setNValue (m_updatedTuple s1) columnIndex newValue of
                               Inl e \<Rightarrow> (Inl e, s1)
                             | Inr updated' \<Rightarrow>
                                 mergeDeleteAggregates exec h deltaTuple
                                   (Suc aggIndex) (Suc columnIndex)
                                   (if aggType = EXPRESSION_TYPE_AGGREGATE_MIN
                                       \<or> aggType = EXPRESSION_TYPE_AGGREGATE_MAX
                                    then Suc minMaxColumnIndex else minMaxColumnIndex)
                                   (s1\<lparr>m_updatedTuple := updated'\<rparr>))))))
      else (Inr (), s))"
  by pat_completeness auto
termination
  by (relation "measure (\<lambda>(exec, h, deltaTuple, aggIndex, columnIndex, minMaxColumnIndex, s).
        m_aggColumnCount h - aggIndex)") auto

definition mergeTupleForDelete ::
  "plan_runner \<Rightarrow> MaterializedViewHandler \<Rightarrow> TableTuple \<Rightarrow> ee_state
     \<Rightarrow> (ee_error + unit) \<times> ee_state" where
  "mergeTupleForDelete exec h deltaTuple s =
     (case copyGroupByColumns (m_groupByColumnCount h) (existingTuple s) 0 (m_updatedTuple s) of
        (Inl e, u) \<Rightarrow> (Inl e, s\<lparr>m_updatedTuple := u\<rparr>)
      | (Inr _, u) \<Rightarrow>
          (case getNValue (existingTuple s) (m_countStarColumnIndex h) of
             Inl e \<Rightarrow> (Inl e, s\<lparr>m_updatedTuple := u\<rparr>)
           | Inr existingCount \<Rightarrow>
               (case getNValue (Some deltaTuple) (m_countStarColumnIndex h) of
                  Inl e \<Rightarrow> (Inl e, s\<lparr>m_updatedTuple := u\<rparr>)
                | Inr deltaCount \<Rightarrow>
                    if isZero (op_subtract existingCount deltaCount) then
                      (case mergeDeleteZero h 0 (m_groupByColumnCount h) u of
                         (r, u') \<Rightarrow> (r, s\<lparr>m_updatedTuple := u'\<rparr>))
                    else
                      mergeDeleteAggregates exec h deltaTuple 0 (m_groupByColumnCount h) 0
                        (s\<lparr>m_updatedTuple := u\<rparr>))))"

subsection \<open>\<^verbatim>\<open>handleTupleDelete\<close>\<close>

text \<open>The body of the \<^verbatim>\<open>while\<close> loop; \<^verbatim>\<open>throwFatalException\<close> is
  \<open>FatalException\<close>.\<close>

definition handleTupleDelete_row ::
  "plan_runner \<Rightarrow> MaterializedViewHandler \<Rightarrow> TableTuple \<Rightarrow> ee_state
     \<Rightarrow> (ee_error + unit) \<times> ee_state" where
  "handleTupleDelete_row exec h deltaTuple s =
     (case findExistingTuple h deltaTuple s of
        (Inl e, s1) \<Rightarrow> (Inl e, s1)
      | (Inr found, s1) \<Rightarrow>
          if \<not> found then (Inl FatalException, s1)
          else
            (case getNValue (existingTuple s1) (m_countStarColumnIndex h) of
               Inl e \<Rightarrow> (Inl e, s1)
             | Inr existingCount \<Rightarrow>
                 (case getNValue (Some deltaTuple) (m_countStarColumnIndex h) of
                    Inl e \<Rightarrow> (Inl e, s1)
                  | Inr deltaCount \<Rightarrow>
                      if compare existingCount deltaCount = 0 \<and> m_groupByColumnCount h > 0
                      then deleteTuple s1
                      else
                        (case mergeTupleForDelete exec h deltaTuple s1 of
                           (Inl e, s2) \<Rightarrow> (Inl e, s2)
                         | (Inr _, s2) \<Rightarrow> updateTupleWithSpecificIndexes s2))))"

fun handleTupleDelete_rows ::
  "plan_runner \<Rightarrow> MaterializedViewHandler \<Rightarrow> TableTuple list \<Rightarrow> ee_state
     \<Rightarrow> (ee_error + unit) \<times> ee_state" where
  "handleTupleDelete_rows exec h [] s = (Inr (), s)"
| "handleTupleDelete_rows exec h (deltaTuple # rest) s =
     (case handleTupleDelete_row exec h deltaTuple s of
        (Inl e, s') \<Rightarrow> (Inl e, s')
      | (Inr _, s') \<Rightarrow> handleTupleDelete_rows exec h rest s')"

text \<open>The delta-mode context is allocated with \<^verbatim>\<open>new\<close> here and deleted by hand
  after the create query has returned; when the query throws it is not deleted.\<close>

definition handleTupleDelete ::
  "plan_runner \<Rightarrow> MaterializedViewHandler \<Rightarrow> PersistentTable \<Rightarrow> ee_state
     \<Rightarrow> (ee_error + unit) \<times> ee_state" where
  "handleTupleDelete exec h sourceTable s =
     (case executeExecutors exec (m_createQueryExecutorVector h) (enterDeltaMode sourceTable s) of
        (Inl e, s1) \<Rightarrow> (Inl e, s1)
      | (Inr delta, s1) \<Rightarrow> handleTupleDelete_rows exec h delta (exitDeltaMode sourceTable s1))"

text \<open>The recursion equations of the looping functions are unfolded by hand.\<close>

declare copyGroupByColumns.simps [simp del]
declare mergeInsertAggregates.simps [simp del]
declare fallbackBackup.simps [simp del]
declare fallbackRestore.simps [simp del]
declare mergeDeleteZero.simps [simp del]
declare mergeDeleteAggregates.simps [simp del]

subsection \<open>Properties of runs, used to state the theorems\<close>

text \<open>From state \<open>s\<close> to state \<open>s'\<close> the delta-mode flags are unchanged and the
  plans run in between are fallback queries of the handler, each run with the flags
  of \<open>s\<close>.\<close>

definition only_fallback_runs :: "MaterializedViewHandler \<Rightarrow> ee_state \<Rightarrow> ee_state \<Rightarrow> bool" where
  "only_fallback_runs h s s' \<longleftrightarrow>
     delta_tables s' = delta_tables s \<and>
     (\<exists>evs. ec_executed s' = ec_executed s @ evs \<and>
        (\<forall>e \<in> set evs. ev_plan e \<in> set (m_minMaxExecutorVectors h) \<and>
                        ev_delta e = delta_tables s))"

text \<open>The aggregate columns recomputed by a query, and the vocabulary to say which
  fallback queries a merge-for-delete has run. \<open>minMaxIndex tys k\<close> counts the MIN and
  MAX columns before aggregate column \<open>k\<close>: the position of that column's plan in
  \<open>m_minMaxExecutorVectors\<close>. \<open>needs_fallback h ex d k\<close>: aggregate column \<open>k\<close> is a
  MIN or MAX column whose delta value is not null and equal to the existing value.
  \<open>fallback_run exec h u e k\<close>: the run \<open>e\<close> is the fallback plan of aggregate column
  \<open>k\<close>, and what it returned (the first column of its first row, NULL when it
  returned no row) is the value of that column in the tuple \<open>u\<close>.\<close>

definition is_minmax :: "ExpressionType \<Rightarrow> bool" where
  "is_minmax ty \<longleftrightarrow> ty = EXPRESSION_TYPE_AGGREGATE_MIN \<or> ty = EXPRESSION_TYPE_AGGREGATE_MAX"

definition minMaxIndex :: "ExpressionType list \<Rightarrow> nat \<Rightarrow> nat" where
  "minMaxIndex tys k = length (filter is_minmax (take k tys))"

definition needs_fallback ::
  "MaterializedViewHandler \<Rightarrow> TableTuple \<Rightarrow> TableTuple \<Rightarrow> nat \<Rightarrow> bool" where
  "needs_fallback h ex d k \<longleftrightarrow>
     is_minmax (m_aggTypes h ! k) \<and>
     d ! (m_groupByColumnCount h + k) \<noteq> NullValue \<and>
     ex ! (m_groupByColumnCount h + k) = d ! (m_groupByColumnCount h + k)"

definition fallback_run ::
  "plan_runner \<Rightarrow> MaterializedViewHandler \<Rightarrow> TableTuple \<Rightarrow> exec_event \<Rightarrow> nat \<Rightarrow> bool" where
  "fallback_run exec h u e k \<longleftrightarrow>
     ev_plan e = m_minMaxExecutorVectors h ! minMaxIndex (m_aggTypes h) k \<and>
     (\<exists>rows. exec (ev_plan e) (ev_params e) (ev_delta e) = Some rows \<and>
        (case rows of [] \<Rightarrow> Inr NullValue | resultTuple # _ \<Rightarrow> getNValue (Some resultTuple) 0)
          = Inr (u ! (m_groupByColumnCount h + k)))"

subsection \<open>Concrete views used as inputs\<close>

text \<open>The view \<^verbatim>\<open>SELECT g, COUNT(*), SUM(v), MIN(v), MAX(v) FROM T GROUP BY g\<close>
  holding the groups \<open>1\<close> and \<open>2\<close>, with the first row as the existing tuple.\<close>

definition grouped_view :: MaterializedViewHandler where
  "grouped_view =
     \<lparr>m_groupByColumnCount = 1, m_aggColumnCount = 4,
      m_aggTypes = [EXPRESSION_TYPE_AGGREGATE_COUNT_STAR, EXPRESSION_TYPE_AGGREGATE_SUM,
                    EXPRESSION_TYPE_AGGREGATE_MIN, EXPRESSION_TYPE_AGGREGATE_MAX],
      m_countStarColumnIndex = 1, m_createQueryExecutorVector = 0,
      m_minMaxExecutorVectors = [1, 2]\<rparr>"

definition grouped_state :: ee_state where
  "grouped_state =
     \<lparr>m_destTable = [[IntValue 1, IntValue 2, IntValue 12, IntValue 5, IntValue 7],
                     [IntValue 2, IntValue 1, IntValue 3, IntValue 3, IntValue 3]],
      m_existingTuple = Some 0,
      m_updatedTuple = [NullValue, NullValue, NullValue, NullValue, NullValue],
      ec_params = [IntValue 100, IntValue 200, IntValue 300],
      delta_tables = {},
      ec_executed = []\<rparr>"

text \<open>Plans for that view over the source table \<open>T = 7\<close> holding \<open>(1,7)\<close> and
  \<open>(2,3)\<close> after the row \<open>(1,5)\<close> has been deleted: plan \<open>0\<close> is the create query
  (in delta mode it sees the deleted row only), plans \<open>1\<close> and \<open>2\<close> are the fallback
  queries for MIN and MAX of the group given by the first parameter. Any other plan
  throws.\<close>

definition scenario_runner :: plan_runner where
  "scenario_runner ev ps delta =
     (if ev = 0 then
        (if 7 \<in> delta then Some [[IntValue 1, IntValue 1, IntValue 5, IntValue 5, IntValue 5]]
         else Some [[IntValue 1, IntValue 1, IntValue 7, IntValue 7, IntValue 7],
                    [IntValue 2, IntValue 1, IntValue 3, IntValue 3, IntValue 3]])
      else if ev = 1 \<or> ev = 2 then
        (if ps ! 0 = IntValue 1 then Some [[IntValue 7]]
         else if ps ! 0 = IntValue 2 then Some [[IntValue 3]]
         else Some [])
      else None)"

text \<open>The view \<^verbatim>\<open>SELECT COUNT(*), SUM(v), MIN(v) FROM T\<close> over a table holding the
  one value \<open>5\<close>: a single row, no group-by column. Plan \<open>10\<close> is its create query
  (in delta mode it sees the one changed row, with value \<open>5\<close>), plan \<open>11\<close> the
  fallback query for MIN, which finds no row.\<close>

definition ungrouped_view :: MaterializedViewHandler where
  "ungrouped_view =
     \<lparr>m_groupByColumnCount = 0, m_aggColumnCount = 3,
      m_aggTypes = [EXPRESSION_TYPE_AGGREGATE_COUNT_STAR, EXPRESSION_TYPE_AGGREGATE_SUM,
                    EXPRESSION_TYPE_AGGREGATE_MIN],
      m_countStarColumnIndex = 0, m_createQueryExecutorVector = 10,
      m_minMaxExecutorVectors = [11]\<rparr>"

definition ungrouped_state :: ee_state where
  "ungrouped_state =
     \<lparr>m_destTable = [[IntValue 1, IntValue 5, IntValue 5]],
      m_existingTuple = None,
      m_updatedTuple = [NullValue, NullValue, NullValue],
      ec_params = [IntValue 100],
      delta_tables = {},
      ec_executed = []\<rparr>"

definition ungrouped_runner :: plan_runner where
  "ungrouped_runner ev ps delta =
     (if ev = 10 then
        (if 7 \<in> delta then Some [[IntValue 1, IntValue 5, IntValue 5]]
         else Some [[IntValue 0, NullValue, NullValue]])
      else if ev = 11 then Some []
      else None)"

section \<open>Dependency retrieval: \<^verbatim>\<open>VoltDBIPC::retrieveDependency\<close> (voltdbipc.cpp)\<close>

text \<open>The socket \<^verbatim>\<open>m_fd\<close>. What the host sends arrives in chunks: a chunk of bytes
  (an empty one is the end of the stream, \<^verbatim>\<open>read\<close> returning \<open>0\<close>) or a read error
  (\<^verbatim>\<open>read\<close> returning \<open>-1\<close>). \<open>writable\<close> says whether \<^verbatim>\<open>write\<close> succeeds.\<close>

datatype chunk = Bytes "8 word list" | ReadError

record ipc_socket =
  inbound :: "chunk list"
  outbound :: "8 word list"
  writable :: bool

text \<open>\<^verbatim>\<open>read(m_fd, buf, n)\<close>: the return value, the bytes put into the buffer, and the
  socket afterwards. At most \<open>n\<close> bytes of the first chunk are taken.\<close>

definition sock_read :: "nat \<Rightarrow> ipc_socket \<Rightarrow> int \<times> 8 word list \<times> ipc_socket" where
  "sock_read n s =
     (case inbound s of
        [] \<Rightarrow> (0, [], s)
      | ReadError # cs \<Rightarrow> (- 1, [], s\<lparr>inbound := cs\<rparr>)
      | Bytes bs # cs \<Rightarrow>
          if length bs \<le> n then (int (length bs), bs, s\<lparr>inbound := cs\<rparr>)
          else (int n, take n bs, s\<lparr>inbound := Bytes (drop n bs) # cs\<rparr>))"

text \<open>\<^verbatim>\<open>write(m_fd, buf, len)\<close>: all the bytes, or \<open>-1\<close>.\<close>

definition sock_write :: "8 word list \<Rightarrow> ipc_socket \<Rightarrow> int \<times> ipc_socket" where
  "sock_write bs s =
     (if writable s then (int (length bs), s\<lparr>outbound := outbound s @ bs\<rparr>) else (- 1, s))"

text \<open>\<^verbatim>\<open>htonl\<close> stored into the message, and \<^verbatim>\<open>ntohl\<close> of the four bytes read:
  network byte order is big-endian.\<close>

definition htonl_bytes :: "32 word \<Rightarrow> 8 word list" where
  "htonl_bytes w = [ucast (drop_bit 24 w), ucast (drop_bit 16 w), ucast (drop_bit 8 w), ucast w]"

fun ntohl_bytes :: "8 word list \<Rightarrow> 32 word" where
  "ntohl_bytes [b0, b1, b2, b3] =
     push_bit 24 (ucast b0) OR push_bit 16 (ucast b1) OR push_bit 8 (ucast b2) OR ucast b3"
| "ntohl_bytes _ = 0"

text \<open>The loop that reads the dependency: \<open>bytes\<close> counts what has been read into
  \<open>dependencyData\<close>. It stops when everything is there, when \<^verbatim>\<open>read\<close> returns
  \<open>0\<close> and when it returns a negative number.\<close>

function readDependencyData ::
  "int \<Rightarrow> int \<Rightarrow> 8 word list \<Rightarrow> ipc_socket \<Rightarrow> int \<times> 8 word list \<times> ipc_socket" where
  "readDependencyData dependencyLength bytes dependencyData s =
     (if bytes \<noteq> dependencyLength then
        (case sock_read (nat (dependencyLength - bytes)) s of
           (r, bs, s') \<Rightarrow>
             if bytes = bytes + r then (bytes + r, dependencyData, s')
             else if bytes > bytes + r then (bytes + r + 1, dependencyData, s')
             else readDependencyData dependencyLength (bytes + r) (dependencyData @ bs) s')
      else (bytes, dependencyData, s))"
  by pat_completeness auto
termination
  apply (relation "measure (\<lambda>(dependencyLength, bytes, dependencyData, s).
           nat (dependencyLength - bytes))")
   apply simp
  apply (auto simp: sock_read_def length_greater_0_conv [symmetric]
               simp del: length_greater_0_conv split: list.splits chunk.splits if_splits)
  done

declare readDependencyData.simps [simp del]

text \<open>\<^verbatim>\<open>retrieveDependency\<close>: the value returned (\<open>None\<close> is the null pointer) with
  \<^verbatim>\<open>*dependencySz\<close>, and the socket afterwards. Every \<^verbatim>\<open>exit(-1)\<close> (each with an
  \<^verbatim>\<open>assert(false)\<close> in front) is \<open>ProcessExit\<close>; \<^verbatim>\<open>new char[dependencyLength]\<close> with
  a negative length fails.\<close>

definition retrieveDependency ::
  "32 word \<Rightarrow> ipc_socket \<Rightarrow> (ee_error + (8 word list option \<times> nat)) \<times> ipc_socket" where
  "retrieveDependency dependencyId s =
     (case sock_write (kErrorCode_RetrieveDependency # htonl_bytes dependencyId) s of
        (written, s1) \<Rightarrow>
          if written \<noteq> 5 then (Inl ProcessExit, s1)
          else
            (case sock_read 1 s1 of
               (r, bs, s2) \<Rightarrow>
                 if r \<noteq> 1 then (Inl ProcessExit, s2)
                 else
                   (case bs of
                      [] \<Rightarrow> (Inl ProcessExit, s2)
                    | responseCode # _ \<Rightarrow>
                        if kErrorCode_DependencyNotFound = responseCode then (Inr (None, 0), s2)
                        else if kErrorCode_DependencyFound \<noteq> responseCode then (Inl ProcessExit, s2)
                        else
                          (case sock_read 4 s2 of
                             (r4, lengthBytes, s3) \<Rightarrow>
                               if r4 \<noteq> 4 then (Inl ProcessExit, s3)
                               else if sint (ntohl_bytes lengthBytes) < 0 then (Inl BadAlloc, s3)
                               else
                                 (case readDependencyData (sint (ntohl_bytes lengthBytes)) 0 [] s3 of
                                    (bytes, dependencyData, s4) \<Rightarrow>
                                      if bytes \<noteq> sint (ntohl_bytes lengthBytes)
                                      then (Inl ProcessExit, s4)
                                      else (Inr (Some dependencyData,
                                                 nat (sint (ntohl_bytes lengthBytes))), s4))))))"

text \<open>The bytes the host has sent and the engine has not read yet, and whether the
  host delivers \<open>n\<close> more bytes before the stream ends or fails.\<close>

fun pending :: "chunk list \<Rightarrow> 8 word list" where
  "pending [] = []"
| "pending (Bytes bs # cs) = bs @ pending cs"
| "pending (ReadError # cs) = pending cs"

fun delivers :: "nat \<Rightarrow> chunk list \<Rightarrow> bool" where
  "delivers n [] = (n = 0)"
| "delivers n (ReadError # cs) = (n = 0)"
| "delivers n (Bytes bs # cs) = (n = 0 \<or> (bs \<noteq> [] \<and> (n \<le> length bs \<or> delivers (n - length bs) cs)))"

text \<open>A host that answers a request with a dependency of three bytes, sent in two
  pieces, and one that answers that there is none.\<close>

definition host_found :: ipc_socket where
  "host_found =
     \<lparr>inbound = [Bytes [4], Bytes [0, 0, 0, 3], Bytes [10, 20], Bytes [30, 99]],
      outbound = [], writable = True\<rparr>"

definition host_not_found :: ipc_socket where
  "host_not_found = \<lparr>inbound = [Bytes [3, 99]], outbound = [], writable = True\<rparr>"

definition host_confused :: ipc_socket where
  "host_confused = \<lparr>inbound = [Bytes [2, 99]], outbound = [], writable = True\<rparr>"

text \<open>A host that sends the same bytes as \<open>host_found\<close>, a well-formed reply with
  a dependency of three bytes, where the four bytes of the length arrive in two pieces.\<close>

definition host_found_split_length :: ipc_socket where
  "host_found_split_length =
     \<lparr>inbound = [Bytes [4], Bytes [0, 0], Bytes [0, 3], Bytes [10, 20], Bytes [30, 99]],
      outbound = [], writable = True\<rparr>"

section \<open>Installing a handler (MaterializedViewHandler.cpp)\<close>

text \<open>Tables and handlers are objects reached through pointers: a heap maps addresses
  to objects, and a pointer is an address (\<open>None\<close> is the null pointer). Of a
  \<^verbatim>\<open>PersistentTable\<close> the handler code uses \<open>m_mvHandler\<close>, the list of view
  handlers to notify and whether the table is replicated. A handler object is either a
  \<^verbatim>\<open>MaterializedViewHandler\<close> proper, with its destination table, its map of source
  tables (a list ordered by key, as \<^verbatim>\<open>std::map\<close> iterates) and its replicated
  wrapper, or a \<^verbatim>\<open>ReplicatedMaterializedViewHandler\<close>, which is constructed without
  an engine and so never has source tables or a wrapper of its own. The heap also keeps,
  in the order they happen, the calls that change a notify list, the handler objects
  freed and the assignments to \<open>m_mvHandler\<close>.\<close>

record PersistentTable_obj =
  m_mvHandler :: "nat option"
  m_viewHandlers :: "nat list"
  isCatalogTableReplicated :: bool

record MaterializedViewHandler_obj =
  m_destTablePtr :: nat
  m_sourceTables :: "(nat \<times> int) list"
  m_replicatedWrapper :: "nat option"

datatype handler_object =
    ViewHandler MaterializedViewHandler_obj
  | ReplicatedViewHandler nat int

datatype heap_event =
    Ev_dropViewHandler nat nat
  | Ev_addViewHandler nat nat
  | Ev_delete nat
  | Ev_set_mvHandler nat nat

record ee_heap =
  heap_tables :: "nat \<rightharpoonup> PersistentTable_obj"
  heap_handlers :: "nat \<rightharpoonup> handler_object"
  heap_log :: "heap_event list"

text \<open>Modelled from the spec: \<^verbatim>\<open>PersistentTable::addViewHandler\<close> and
  \<^verbatim>\<open>PersistentTable::dropViewHandler\<close> (storage/persistenttable.h is not among the
  sources): the source table keeps a list of the handlers it must notify; adding appends
  a handler, dropping removes one entry for the handler, which has to be there.\<close>

definition addViewHandler :: "nat \<Rightarrow> nat \<Rightarrow> ee_heap \<Rightarrow> ee_error + ee_heap" where
  "addViewHandler sourceTable viewHandler st =
     (case heap_tables st sourceTable of
        None \<Rightarrow> Inl AssertionFailed
      | Some tb \<Rightarrow>
          Inr (st\<lparr>heap_tables := (heap_tables st)
                 (sourceTable \<mapsto> tb\<lparr>m_viewHandlers := m_viewHandlers tb @ [viewHandler]\<rparr>),
                 heap_log := heap_log st @ [Ev_addViewHandler sourceTable viewHandler]\<rparr>))"

definition dropViewHandler :: "nat \<Rightarrow> nat option \<Rightarrow> ee_heap \<Rightarrow> ee_error + ee_heap" where
  "dropViewHandler sourceTable viewHandler st =
     (case heap_tables st sourceTable of
        None \<Rightarrow> Inl AssertionFailed
      | Some tb \<Rightarrow>
          (case viewHandler of
             None \<Rightarrow> Inl AssertionFailed
           | Some vh \<Rightarrow>
               if vh \<in> set (m_viewHandlers tb)
               then Inr (st\<lparr>heap_tables := (heap_tables st)
                           (sourceTable \<mapsto> tb\<lparr>m_viewHandlers := remove1 vh (m_viewHandlers tb)\<rparr>),
                           heap_log := heap_log st @ [Ev_dropViewHandler sourceTable vh]\<rparr>)
               else Inl AssertionFailed))"

text \<open>\<^verbatim>\<open>m_sourceTables.emplace\<close>: the entry goes to its place in key order; the
  boolean is false when the key is there already.\<close>

fun emplace :: "nat \<Rightarrow> int \<Rightarrow> (nat \<times> int) list \<Rightarrow> (nat \<times> int) list \<times> bool" where
  "emplace k v [] = ([(k, v)], True)"
| "emplace k v ((k', v') # xs) =
     (if k = k' then ((k', v') # xs, False)
      else if k < k' then ((k, v) # (k', v') # xs, True)
      else (case emplace k v xs of (ys, inserted) \<Rightarrow> ((k', v') # ys, inserted)))"

text \<open>\<^verbatim>\<open>dropSourceTable(viewHandlerPartitioned, m_sourceTables.begin())\<close> of the
  handler at address \<open>this\<close>.\<close>

definition dropSourceTable :: "bool \<Rightarrow> nat \<Rightarrow> ee_heap \<Rightarrow> ee_error + ee_heap" where
  "dropSourceTable viewHandlerPartitioned this st =
     (case heap_handlers st this of
        Some (ViewHandler h) \<Rightarrow>
          (case m_sourceTables h of
             [] \<Rightarrow> Inl AssertionFailed
           | (sourceTable, relativeTableIndex) # rest \<Rightarrow>
               (case heap_tables st sourceTable of
                  None \<Rightarrow> Inl AssertionFailed
                | Some tb \<Rightarrow>
                    (case (if viewHandlerPartitioned = isCatalogTableReplicated tb
                           then (if viewHandlerPartitioned
                                 then dropViewHandler sourceTable (m_replicatedWrapper h) st
                                 else Inl AssertionFailed)
                           else dropViewHandler sourceTable (Some this) st) of
                       Inl e \<Rightarrow> Inl e
                     | Inr st1 \<Rightarrow>
                         Inr (st1\<lparr>heap_handlers := (heap_handlers st1)
                                (this \<mapsto> ViewHandler (h\<lparr>m_sourceTables := rest\<rparr>))\<rparr>))))
      | _ \<Rightarrow> Inl AssertionFailed)"

text \<open>The source tables a handler object has left.\<close>

definition sourceTables_of :: "nat \<Rightarrow> ee_heap \<Rightarrow> (nat \<times> int) list" where
  "sourceTables_of this st =
     (case heap_handlers st this of
        Some (ViewHandler h) \<Rightarrow> m_sourceTables h
      | _ \<Rightarrow> [])"

text \<open>The \<^verbatim>\<open>do ... while (!m_sourceTables.empty())\<close> loop of the destructor.\<close>

function dropAllSourceTables :: "bool \<Rightarrow> nat \<Rightarrow> ee_heap \<Rightarrow> ee_error + ee_heap" where
  "dropAllSourceTables viewHandlerPartitioned this st =
     (case dropSourceTable viewHandlerPartitioned this st of
        Inl e \<Rightarrow> Inl e
      | Inr st1 \<Rightarrow>
          if sourceTables_of this st1 \<noteq> []
          then dropAllSourceTables viewHandlerPartitioned this st1
          else Inr st1)"
  by pat_completeness auto
termination
  apply (relation "measure (\<lambda>(viewHandlerPartitioned, this, st). length (sourceTables_of this st))")
   apply simp
  apply (auto simp: dropSourceTable_def dropViewHandler_def sourceTables_of_def
              split: option.splits handler_object.splits list.splits if_splits sum.splits)
  done

declare dropAllSourceTables.simps [simp del]

text \<open>\<^verbatim>\<open>delete p\<close> for a handler pointer: nothing for the null pointer; otherwise the
  destructor runs and the object is gone. The destructor of a handler without source
  tables returns at once (that of a replicated wrapper always does).\<close>

definition free_handler :: "nat \<Rightarrow> ee_heap \<Rightarrow> ee_heap" where
  "free_handler p st = st\<lparr>heap_handlers := (heap_handlers st)(p := None),
                          heap_log := heap_log st @ [Ev_delete p]\<rparr>"

definition delete_replicatedWrapper :: "nat option \<Rightarrow> ee_heap \<Rightarrow> ee_error + ee_heap" where
  "delete_replicatedWrapper p st =
     (case p of
        None \<Rightarrow> Inr st
      | Some w \<Rightarrow>
          (case heap_handlers st w of
             Some (ReplicatedViewHandler partitionedHandler handlerPartitionId) \<Rightarrow>
               Inr (free_handler w st)
           | _ \<Rightarrow> Inl AssertionFailed))"

definition delete_handler :: "nat option \<Rightarrow> ee_heap \<Rightarrow> ee_error + ee_heap" where
  "delete_handler p st =
     (case p of
        None \<Rightarrow> Inr st
      | Some this \<Rightarrow>
          (case heap_handlers st this of
             None \<Rightarrow> Inl AssertionFailed
           | Some (ReplicatedViewHandler partitionedHandler handlerPartitionId) \<Rightarrow>
               Inr (free_handler this st)
           | Some (ViewHandler h) \<Rightarrow>
               if m_sourceTables h = [] then Inr (free_handler this st)
               else
                 (case heap_tables st (m_destTablePtr h) of
                    None \<Rightarrow> Inl AssertionFailed
                  | Some dt \<Rightarrow>
                      (case dropAllSourceTables (\<not> isCatalogTableReplicated dt) this st of
                         Inl e \<Rightarrow> Inl e
                       | Inr st1 \<Rightarrow>
                           (case delete_replicatedWrapper (m_replicatedWrapper h) st1 of
                              Inl e \<Rightarrow> Inl e
                            | Inr st2 \<Rightarrow> Inr (free_handler this st2))))))"

text \<open>\<^verbatim>\<open>addSourceTable\<close>. The address \<open>wrapper\<close> is the one \<^verbatim>\<open>new\<close> returns
  when a replicated wrapper has to be created, \<open>partitionId\<close> the engine's partition.\<close>

definition addSourceTable ::
  "bool \<Rightarrow> nat \<Rightarrow> int \<Rightarrow> nat \<Rightarrow> nat \<Rightarrow> int \<Rightarrow> ee_heap \<Rightarrow> ee_error + ee_heap" where
  "addSourceTable viewHandlerPartitioned sourceTable relativeTableIndex this wrapper partitionId st =
     (case heap_handlers st this of
        Some (ViewHandler h) \<Rightarrow>
          (case heap_tables st sourceTable of
             None \<Rightarrow> Inl AssertionFailed
           | Some tb \<Rightarrow>
               (case (if viewHandlerPartitioned = isCatalogTableReplicated tb then
                        (if \<not> viewHandlerPartitioned then Inl AssertionFailed
                         else
                           (case m_replicatedWrapper h of
                              None \<Rightarrow>
                                (case addViewHandler sourceTable wrapper
                                        (st\<lparr>heap_handlers := (heap_handlers st)
                                             (wrapper \<mapsto> ReplicatedViewHandler this partitionId)\<rparr>) of
                                   Inl e \<Rightarrow> Inl e
                                 | Inr st1 \<Rightarrow> Inr (st1, h\<lparr>m_replicatedWrapper := Some wrapper\<rparr>))
                            | Some w \<Rightarrow>
                                (case addViewHandler sourceTable w st of
                                   Inl e \<Rightarrow> Inl e
                                 | Inr st1 \<Rightarrow> Inr (st1, h))))
                      else
                        (case addViewHandler sourceTable this st of
                           Inl e \<Rightarrow> Inl e
                         | Inr st1 \<Rightarrow> Inr (st1, h))) of
                  Inl e \<Rightarrow> Inl e
                | Inr (st1, h1) \<Rightarrow>
                    (case emplace sourceTable relativeTableIndex (m_sourceTables h1) of
                       (sources, inserted) \<Rightarrow>
                         if \<not> inserted then Inl AssertionFailed
                         else Inr (st1\<lparr>heap_handlers := (heap_handlers st1)
                                     (this \<mapsto> ViewHandler (h1\<lparr>m_sourceTables := sources\<rparr>))\<rparr>))))
      | _ \<Rightarrow> Inl AssertionFailed)"

text \<open>The loop of \<^verbatim>\<open>install\<close> over the source tables named by the catalog.\<close>

fun addSourceTables ::
  "bool \<Rightarrow> (nat \<times> int) list \<Rightarrow> nat \<Rightarrow> nat \<Rightarrow> int \<Rightarrow> ee_heap \<Rightarrow> ee_error + ee_heap" where
  "addSourceTables viewHandlerPartitioned [] this wrapper partitionId st = Inr st"
| "addSourceTables viewHandlerPartitioned ((sourceTable, relativeTableIndex) # rest)
       this wrapper partitionId st =
     (case addSourceTable viewHandlerPartitioned sourceTable relativeTableIndex
             this wrapper partitionId st of
        Inl e \<Rightarrow> Inl e
      | Inr st1 \<Rightarrow> addSourceTables viewHandlerPartitioned rest this wrapper partitionId st1)"

text \<open>\<^verbatim>\<open>install\<close>, called by the constructor of the handler at address \<open>this\<close>:
  the handler installed on the destination table so far is deleted, \<open>this\<close> takes
  its place in \<open>m_mvHandler\<close>, then it is added to its source tables. (The list of
  updatable indexes the function also fills is left out.)\<close>

definition install ::
  "(nat \<times> int) list \<Rightarrow> nat \<Rightarrow> nat \<Rightarrow> int \<Rightarrow> ee_heap \<Rightarrow> ee_error + ee_heap" where
  "install sourceTables this wrapper partitionId st =
     (case heap_handlers st this of
        Some (ViewHandler h) \<Rightarrow>
          (case heap_tables st (m_destTablePtr h) of
             None \<Rightarrow> Inl AssertionFailed
           | Some dt \<Rightarrow>
               (case delete_handler (m_mvHandler dt) st of
                  Inl e \<Rightarrow> Inl e
                | Inr st1 \<Rightarrow>
                    (case heap_tables st1 (m_destTablePtr h) of
                       None \<Rightarrow> Inl AssertionFailed
                     | Some dt1 \<Rightarrow>
                         addSourceTables (\<not> isCatalogTableReplicated dt1) sourceTables
                           this wrapper partitionId
                           (st1\<lparr>heap_tables := (heap_tables st1)
                                 (m_destTablePtr h \<mapsto> dt1\<lparr>m_mvHandler := Some this\<rparr>),
                                 heap_log := heap_log st1 @
                                   [Ev_set_mvHandler (m_destTablePtr h) this]\<rparr>))))
      | _ \<Rightarrow> Inl AssertionFailed)"

text \<open>The pointer under which a handler is registered in the notify list of a source
  table: its replicated wrapper when the handler is partitioned and the table
  replicated, the handler itself otherwise.\<close>

definition registered_as ::
  "bool \<Rightarrow> nat \<Rightarrow> MaterializedViewHandler_obj \<Rightarrow> PersistentTable_obj \<Rightarrow> nat option" where
  "registered_as viewHandlerPartitioned this h tb =
     (if viewHandlerPartitioned = isCatalogTableReplicated tb then m_replicatedWrapper h
      else Some this)"

text \<open>A heap with the view table \<open>1\<close>, the partitioned source table \<open>2\<close> and the
  replicated source table \<open>3\<close>. The handler \<open>100\<close> is installed on the view, registered
  at table \<open>2\<close> itself and at table \<open>3\<close> through its wrapper \<open>101\<close>; the handler
  \<open>200\<close> is the one under construction.\<close>

definition sample_heap :: ee_heap where
  "sample_heap =
     \<lparr>heap_tables =
        [1 \<mapsto> \<lparr>m_mvHandler = Some 100, m_viewHandlers = [], isCatalogTableReplicated = False\<rparr>,
         2 \<mapsto> \<lparr>m_mvHandler = None, m_viewHandlers = [100], isCatalogTableReplicated = False\<rparr>,
         3 \<mapsto> \<lparr>m_mvHandler = None, m_viewHandlers = [101], isCatalogTableReplicated = True\<rparr>],
      heap_handlers =
        [100 \<mapsto> ViewHandler \<lparr>m_destTablePtr = 1, m_sourceTables = [(2, 0), (3, 1)],
                              m_replicatedWrapper = Some 101\<rparr>,
         101 \<mapsto> ReplicatedViewHandler 100 0,
         200 \<mapsto> ViewHandler \<lparr>m_destTablePtr = 1, m_sourceTables = [],
                              m_replicatedWrapper = None\<rparr>],
      heap_log = []\<rparr>"

section \<open>Theorems\<close>

subsection \<open>Command dispatch\<close>

text \<open>
  C1. Command code 19 (UpdateCatalog) is meant to reach the engine's catalog update.
  The switch of \<^verbatim>\<open>execute\<close> sends code 19 to \<^verbatim>\<open>loadCatalog\<close> instead: with
  an engine present, the operation added is the wholesale load of the payload, not the
  update, and no command code selects \<^verbatim>\<open>VoltDBIPC::updateCatalog\<close> at all.
\<close>

theorem execute_19_calls_loadCatalog:
  "execute_switch 19 = Call_loadCatalog \<and>
   execute_catalog engine_ok \<lparr>m_engine = Some ops\<rparr> 19 data =
     Inr \<lparr>m_engine = Some (ops @ [Engine_loadCatalog (c_str data)])\<rparr> \<and>
   execute_catalog engine_ok \<lparr>m_engine = Some ops\<rparr> 19 data \<noteq>
     Inr \<lparr>m_engine = Some (ops @ [Engine_updateCatalog (c_str data)])\<rparr> \<and>
   execute_switch command \<noteq> Call_updateCatalog"
  by (simp add: execute_switch_def execute_catalog_def VoltDBIPC_loadCatalog_def)

subsection \<open>Undo tokens\<close>


lemma setUndoToken_keeps_ordered:
  assumes "undo_log_ordered e" and "setUndoToken e t = Inr e'"
  shows "undo_log_ordered e'"
proof (cases "t = INT64_MAX")
  case True
  with assms show ?thesis by (simp add: setUndoToken_def)
next
  case False
  show ?thesis
  proof (cases "m_currentUndoQuantum e")
    case None
    with assms False show ?thesis
      by (auto simp: setUndoToken_def generateUndoQuantum_def undo_log_ordered_def Let_def)
  next
    case (Some cur)
    have srt: "sorted_wrt (\<lambda>a b. m_undoToken a <s m_undoToken b) (m_undoLog e)"
      and ne: "m_undoLog e \<noteq> []" and lst: "last (m_undoLog e) = cur"
      using assms(1) Some by (simp_all add: undo_log_ordered_def)
    show ?thesis
    proof (cases "m_undoToken cur = t")
      case True
      with assms Some False show ?thesis by (simp add: setUndoToken_def)
    next
      case neq: False
      with assms(2) Some False have lt: "m_undoToken cur <s t"
        and e': "e' = e\<lparr>m_undoLog := m_undoLog e @ [\<lparr>m_undoToken = t\<rparr>],
                         m_currentUndoQuantum := Some \<lparr>m_undoToken = t\<rparr>\<rparr>"
        by (auto simp: setUndoToken_def generateUndoQuantum_def Let_def split: if_splits)
      have below: "m_undoToken a <s t" if "a \<in> set (m_undoLog e)" for a
      proof (cases "a = cur")
        case True with lt show ?thesis by simp
      next
        case False
        obtain ys where ys: "m_undoLog e = ys @ [cur]"
          using ne lst by (metis append_butlast_last_id)
        with that False have "a \<in> set ys" by auto
        with srt ys have "m_undoToken a <s m_undoToken cur"
          by (simp add: sorted_wrt_append)
        with lt show ?thesis by (simp add: word_sless_alt)
      qed
      show ?thesis
        using srt below by (simp add: e' undo_log_ordered_def sorted_wrt_append)
    qed
  qed
qed

lemma setUndoTokens_keeps_ordered:
  "undo_log_ordered e \<Longrightarrow> setUndoTokens e ts = Inr e' \<Longrightarrow> undo_log_ordered e'"
proof (induction ts arbitrary: e)
  case Nil
  then show ?case by simp
next
  case (Cons t ts)
  then show ?case
    by (auto split: sum.splits dest: setUndoToken_keeps_ordered)
qed

text \<open>
  C2. \<^verbatim>\<open>setUndoToken(t)\<close> leaves the engine unchanged when \<open>t\<close> is
  \<open>INT64_MAX\<close>, and when a current undo quantum exists whose token is \<open>t\<close>.
  Otherwise, when \<open>t\<close> is strictly greater than the token of the current quantum
  (the asserted precondition; there is none without a current quantum), it opens a new
  quantum with token \<open>t\<close> and makes it current. Hence over any run of successful
  calls the tokens of the quanta in the log stay strictly increasing.
\<close>

theorem setUndoToken_noop_or_opens_quantum:
  "(t = INT64_MAX \<longrightarrow> setUndoToken e t = Inr e) \<and>
   (m_currentUndoQuantum e = Some q \<and> m_undoToken q = t \<longrightarrow> setUndoToken e t = Inr e) \<and>
   (t \<noteq> INT64_MAX \<and> (\<forall>c. m_currentUndoQuantum e = Some c \<longrightarrow> m_undoToken c <s t) \<longrightarrow>
      setUndoToken e t =
        Inr (e\<lparr>m_undoLog := m_undoLog e @ [\<lparr>m_undoToken = t\<rparr>],
               m_currentUndoQuantum := Some \<lparr>m_undoToken = t\<rparr>\<rparr>)) \<and>
   (undo_log_ordered e \<and> setUndoTokens e ts = Inr e' \<longrightarrow> undo_log_ordered e')"
proof (intro conjI impI)
  assume "t = INT64_MAX"
  then show "setUndoToken e t = Inr e" by (simp add: setUndoToken_def)
next
  assume "m_currentUndoQuantum e = Some q \<and> m_undoToken q = t"
  then show "setUndoToken e t = Inr e" by (simp add: setUndoToken_def)
next
  assume a: "t \<noteq> INT64_MAX \<and> (\<forall>c. m_currentUndoQuantum e = Some c \<longrightarrow> m_undoToken c <s t)"
  show "setUndoToken e t =
        Inr (e\<lparr>m_undoLog := m_undoLog e @ [\<lparr>m_undoToken = t\<rparr>],
               m_currentUndoQuantum := Some \<lparr>m_undoToken = t\<rparr>\<rparr>)"
  proof (cases "m_currentUndoQuantum e")
    case None
    with a show ?thesis by (simp add: setUndoToken_def generateUndoQuantum_def Let_def)
  next
    case (Some c)
    with a have "m_undoToken c <s t" by simp
    then have "m_undoToken c \<noteq> t" by (auto simp: word_sless_alt)
    with a Some \<open>m_undoToken c <s t\<close> show ?thesis
      by (simp add: setUndoToken_def generateUndoQuantum_def Let_def)
  qed
next
  assume "undo_log_ordered e \<and> setUndoTokens e ts = Inr e'"
  then show "undo_log_ordered e'" using setUndoTokens_keeps_ordered by blast
qed

theorem setUndoToken_noop_or_opens_quantum_witness:
  "setUndoToken engine5 INT64_MAX = Inr engine5 \<and>
   setUndoToken engine5 5 = Inr engine5 \<and>
   setUndoToken engine5 7 =
     Inr \<lparr>m_undoLog = [\<lparr>m_undoToken = 5\<rparr>, \<lparr>m_undoToken = 7\<rparr>],
          m_currentUndoQuantum = Some \<lparr>m_undoToken = 7\<rparr>\<rparr> \<and>
   undo_log_ordered engine5 \<and>
   setUndoTokens engine5 [5, 7, 7, INT64_MAX, 9] =
     Inr \<lparr>m_undoLog = [\<lparr>m_undoToken = 5\<rparr>, \<lparr>m_undoToken = 7\<rparr>, \<lparr>m_undoToken = 9\<rparr>],
          m_currentUndoQuantum = Some \<lparr>m_undoToken = 9\<rparr>\<rparr> \<and>
   undo_log_ordered \<lparr>m_undoLog = [\<lparr>m_undoToken = 5\<rparr>, \<lparr>m_undoToken = 7\<rparr>, \<lparr>m_undoToken = 9\<rparr>],
          m_currentUndoQuantum = Some \<lparr>m_undoToken = 9\<rparr>\<rparr>"
proof -
  have ord: "undo_log_ordered engine5"
    by (simp add: undo_log_ordered_def engine5_def)
  have run: "setUndoTokens engine5 [5, 7, 7, INT64_MAX, 9] =
     Inr \<lparr>m_undoLog = [\<lparr>m_undoToken = 5\<rparr>, \<lparr>m_undoToken = 7\<rparr>, \<lparr>m_undoToken = 9\<rparr>],
          m_currentUndoQuantum = Some \<lparr>m_undoToken = 9\<rparr>\<rparr>"
    by (simp add: setUndoToken_def generateUndoQuantum_def engine5_def INT64_MAX_def word_sless_alt Let_def)
  have cur: "m_currentUndoQuantum engine5 = Some \<lparr>m_undoToken = 5\<rparr> \<and> m_undoToken \<lparr>m_undoToken = (5::64 word)\<rparr> = 5"
    by (simp add: engine5_def)
  have pre: "(7::64 word) \<noteq> INT64_MAX \<and> (\<forall>c. m_currentUndoQuantum engine5 = Some c \<longrightarrow> m_undoToken c <s 7)"
    by (simp add: engine5_def INT64_MAX_def word_sless_alt)
  from setUndoToken_noop_or_opens_quantum [of INT64_MAX engine5 "\<lparr>m_undoToken = 5\<rparr>" "[5, 7, 7, INT64_MAX, 9]"
      "\<lparr>m_undoLog = [\<lparr>m_undoToken = 5\<rparr>, \<lparr>m_undoToken = 7\<rparr>, \<lparr>m_undoToken = 9\<rparr>],
          m_currentUndoQuantum = Some \<lparr>m_undoToken = 9\<rparr>\<rparr>"]
    setUndoToken_noop_or_opens_quantum [of 5 engine5 "\<lparr>m_undoToken = 5\<rparr>" "[]" engine5]
    setUndoToken_noop_or_opens_quantum [of 7 engine5 "\<lparr>m_undoToken = 5\<rparr>" "[]" engine5]
    ord run cur pre
  show ?thesis by (simp add: engine5_def)
qed

subsection \<open>Merge for insert\<close>

lemma copyGroupByColumns_ok:
  "colindex \<le> gb \<Longrightarrow> gb \<le> length ex \<Longrightarrow> gb \<le> length u \<Longrightarrow>
   \<exists>u'. copyGroupByColumns gb (Some ex) colindex u = (Inr (), u') \<and> length u' = length u \<and>
        (\<forall>j < length u. u' ! j = (if colindex \<le> j \<and> j < gb then ex ! j else u ! j))"
proof (induction "gb - colindex" arbitrary: colindex u)
  case 0
  then have "colindex = gb" by simp
  then show ?case by (auto simp: copyGroupByColumns.simps)
next
  case (Suc m)
  then have lt: "colindex < gb" by simp
  let ?u1 = "u[colindex := ex ! colindex]"
  have step: "copyGroupByColumns gb (Some ex) colindex u
                = copyGroupByColumns gb (Some ex) (Suc colindex) ?u1"
    using lt Suc.prems
    by (subst copyGroupByColumns.simps) (simp add: getNValue_def setNValue_def)
  have "m = gb - Suc colindex" using Suc.hyps(2) by simp
  moreover have "Suc colindex \<le> gb" using lt by simp
  moreover have "gb \<le> length ?u1" using Suc.prems by simp
  ultimately obtain u' where
    r: "copyGroupByColumns gb (Some ex) (Suc colindex) ?u1 = (Inr (), u')"
    and l: "length u' = length ?u1"
    and v: "\<forall>j < length ?u1. u' ! j = (if Suc colindex \<le> j \<and> j < gb then ex ! j else ?u1 ! j)"
    using Suc.hyps(1) [of "Suc colindex" ?u1] Suc.prems(2) by blast
  have "\<forall>j < length u. u' ! j = (if colindex \<le> j \<and> j < gb then ex ! j else u ! j)"
  proof (intro allI impI)
    fix j assume j: "j < length u"
    show "u' ! j = (if colindex \<le> j \<and> j < gb then ex ! j else u ! j)"
    proof (cases "j = colindex")
      case True
      with v j lt show ?thesis by simp
    next
      case False
      with v j show ?thesis by (auto simp: nth_list_update)
    qed
  qed
  with step r l show ?case by simp
qed

lemma mergeInsertValue_total:
  assumes "k < length (m_aggTypes h)" and "EXPRESSION_TYPE_INVALID \<notin> set (m_aggTypes h)"
  shows "\<exists>v. mergeInsertValue h k e d = Inr v"
proof -
  have "m_aggTypes h ! k \<noteq> EXPRESSION_TYPE_INVALID"
    using assms by (metis nth_mem)
  then show ?thesis
    using assms(1)
    by (cases "m_aggTypes h ! k") (simp_all add: mergeInsertValue_def at_index_def)
qed

lemma mergeInsertAggregates_ok:
  assumes ex: "length ex = gb + m_aggColumnCount h"
    and d: "length d = gb + m_aggColumnCount h"
    and ty: "length (m_aggTypes h) = m_aggColumnCount h"
    and legal: "EXPRESSION_TYPE_INVALID \<notin> set (m_aggTypes h)"
  shows "aggIndex \<le> m_aggColumnCount h \<Longrightarrow> length u = gb + m_aggColumnCount h \<Longrightarrow>
   \<exists>u'. mergeInsertAggregates h (Some ex) d aggIndex (gb + aggIndex) u = (Inr (), u') \<and>
        length u' = length u \<and>
        (\<forall>j < gb + aggIndex. u' ! j = u ! j) \<and>
        (\<forall>k. aggIndex \<le> k \<and> k < m_aggColumnCount h \<longrightarrow>
             mergeInsertValue h k (ex ! (gb + k)) (d ! (gb + k)) = Inr (u' ! (gb + k)))"
proof (induction "m_aggColumnCount h - aggIndex" arbitrary: aggIndex u)
  case 0
  then have "aggIndex = m_aggColumnCount h" by simp
  then show ?case by (auto simp: mergeInsertAggregates.simps)
next
  case (Suc m)
  then have lt: "aggIndex < m_aggColumnCount h" by simp
  obtain v where v: "mergeInsertValue h aggIndex (ex ! (gb + aggIndex)) (d ! (gb + aggIndex)) = Inr v"
    using mergeInsertValue_total [of aggIndex h] lt ty legal by metis
  let ?u1 = "u[gb + aggIndex := v]"
  have step: "mergeInsertAggregates h (Some ex) d aggIndex (gb + aggIndex) u
                = mergeInsertAggregates h (Some ex) d (Suc aggIndex) (gb + Suc aggIndex) ?u1"
    using lt ex d Suc.prems v
    by (subst mergeInsertAggregates.simps) (simp add: getNValue_def setNValue_def)
  have "m = m_aggColumnCount h - Suc aggIndex" using Suc.hyps(2) by simp
  moreover have "Suc aggIndex \<le> m_aggColumnCount h" using lt by simp
  moreover have "length ?u1 = gb + m_aggColumnCount h" using Suc.prems by simp
  ultimately obtain u' where
    r: "mergeInsertAggregates h (Some ex) d (Suc aggIndex) (gb + Suc aggIndex) ?u1 = (Inr (), u')"
    and l: "length u' = length ?u1"
    and keep: "\<forall>j < gb + Suc aggIndex. u' ! j = ?u1 ! j"
    and vals: "\<forall>k. Suc aggIndex \<le> k \<and> k < m_aggColumnCount h \<longrightarrow>
             mergeInsertValue h k (ex ! (gb + k)) (d ! (gb + k)) = Inr (u' ! (gb + k))"
    using Suc.hyps(1) [of "Suc aggIndex" ?u1] by blast
  have here: "u' ! (gb + aggIndex) = v"
    using keep lt Suc.prems by simp
  have "\<forall>j < gb + aggIndex. u' ! j = u ! j"
    using keep by simp
  moreover have "\<forall>k. aggIndex \<le> k \<and> k < m_aggColumnCount h \<longrightarrow>
             mergeInsertValue h k (ex ! (gb + k)) (d ! (gb + k)) = Inr (u' ! (gb + k))"
  proof (intro allI impI)
    fix k assume k: "aggIndex \<le> k \<and> k < m_aggColumnCount h"
    show "mergeInsertValue h k (ex ! (gb + k)) (d ! (gb + k)) = Inr (u' ! (gb + k))"
    proof (cases "k = aggIndex")
      case True
      with v here show ?thesis by simp
    next
      case False
      with k vals show ?thesis by simp
    qed
  qed
  ultimately show ?case using step r l by simp
qed

lemma mergeTupleForInsert_ok:
  assumes "existingTuple s = Some ex"
    and "length ex = m_groupByColumnCount h + m_aggColumnCount h"
    and "length d = m_groupByColumnCount h + m_aggColumnCount h"
    and "length (m_updatedTuple s) = m_groupByColumnCount h + m_aggColumnCount h"
    and "length (m_aggTypes h) = m_aggColumnCount h"
    and "EXPRESSION_TYPE_INVALID \<notin> set (m_aggTypes h)"
  shows "\<exists>u'. mergeTupleForInsert h d s = (Inr (), s\<lparr>m_updatedTuple := u'\<rparr>) \<and>
        length u' = m_groupByColumnCount h + m_aggColumnCount h \<and>
        (\<forall>j < m_groupByColumnCount h. u' ! j = ex ! j) \<and>
        (\<forall>k < m_aggColumnCount h.
             mergeInsertValue h k (ex ! (m_groupByColumnCount h + k)) (d ! (m_groupByColumnCount h + k))
               = Inr (u' ! (m_groupByColumnCount h + k)))"
proof -
  let ?gb = "m_groupByColumnCount h"
  obtain u1 where c: "copyGroupByColumns ?gb (Some ex) 0 (m_updatedTuple s) = (Inr (), u1)"
    and l1: "length u1 = length (m_updatedTuple s)"
    and v1: "\<forall>j < length (m_updatedTuple s). u1 ! j = (if 0 \<le> j \<and> j < ?gb then ex ! j else m_updatedTuple s ! j)"
  proof -
    have "0 \<le> ?gb" "?gb \<le> length ex" "?gb \<le> length (m_updatedTuple s)"
      using assms(2,4) by simp_all
    from copyGroupByColumns_ok [OF this] that show ?thesis by blast
  qed
  have "length u1 = ?gb + m_aggColumnCount h" using l1 assms(4) by simp
  then obtain u' where a: "mergeInsertAggregates h (Some ex) d 0 (?gb + 0) u1 = (Inr (), u')"
    and l2: "length u' = length u1"
    and keep: "\<forall>j < ?gb + 0. u' ! j = u1 ! j"
    and vals: "\<forall>k. 0 \<le> k \<and> k < m_aggColumnCount h \<longrightarrow>
             mergeInsertValue h k (ex ! (?gb + k)) (d ! (?gb + k)) = Inr (u' ! (?gb + k))"
    using mergeInsertAggregates_ok [OF assms(2,3,5,6), of 0 u1] by auto
  have "mergeTupleForInsert h d s = (Inr (), s\<lparr>m_updatedTuple := u'\<rparr>)"
    using c a assms(1) by (simp add: mergeTupleForInsert_def)
  moreover have "\<forall>j < ?gb. u' ! j = ex ! j"
    using keep v1 assms(4) by simp
  moreover have "length u' = ?gb + m_aggColumnCount h"
    using l2 l1 assms(4) by simp
  moreover have "\<forall>k < m_aggColumnCount h.
             mergeInsertValue h k (ex ! (?gb + k)) (d ! (?gb + k)) = Inr (u' ! (?gb + k))"
    using vals by simp
  ultimately show ?thesis by blast
qed

text \<open>
  C3. Merge-for-insert, for the aggregate column \<open>c\<close> of a view whose tuples fit its
  schema: a null delta value keeps the existing value; otherwise a null existing value
  is replaced by the delta value; otherwise SUM, COUNT and COUNT_STAR add the two, MIN
  keeps the existing value unless the delta value is smaller, MAX keeps it unless the
  delta value is larger.
\<close>

theorem mergeTupleForInsert_aggregate_column:
  assumes "existingTuple s = Some ex"
    and "length ex = m_groupByColumnCount h + m_aggColumnCount h"
    and "length d = m_groupByColumnCount h + m_aggColumnCount h"
    and "length (m_updatedTuple s) = m_groupByColumnCount h + m_aggColumnCount h"
    and "length (m_aggTypes h) = m_aggColumnCount h"
    and "EXPRESSION_TYPE_INVALID \<notin> set (m_aggTypes h)"
    and "aggIndex < m_aggColumnCount h"
    and "c = m_groupByColumnCount h + aggIndex"
  shows "\<exists>s'. mergeTupleForInsert h d s = (Inr (), s') \<and>
     (d ! c = NullValue \<longrightarrow> m_updatedTuple s' ! c = ex ! c) \<and>
     (d ! c \<noteq> NullValue \<and> ex ! c = NullValue \<longrightarrow> m_updatedTuple s' ! c = d ! c) \<and>
     (\<forall>a b. ex ! c = IntValue a \<and> d ! c = IntValue b \<longrightarrow>
        (m_aggTypes h ! aggIndex \<in> {EXPRESSION_TYPE_AGGREGATE_SUM, EXPRESSION_TYPE_AGGREGATE_COUNT,
                                    EXPRESSION_TYPE_AGGREGATE_COUNT_STAR}
           \<longrightarrow> m_updatedTuple s' ! c = IntValue (a + b)) \<and>
        (m_aggTypes h ! aggIndex = EXPRESSION_TYPE_AGGREGATE_MIN
           \<longrightarrow> m_updatedTuple s' ! c = (if a \<le> b then ex ! c else d ! c)) \<and>
        (m_aggTypes h ! aggIndex = EXPRESSION_TYPE_AGGREGATE_MAX
           \<longrightarrow> m_updatedTuple s' ! c = (if a \<ge> b then ex ! c else d ! c)))"
proof -
  obtain u' where r: "mergeTupleForInsert h d s = (Inr (), s\<lparr>m_updatedTuple := u'\<rparr>)"
    and v: "mergeInsertValue h aggIndex (ex ! c) (d ! c) = Inr (u' ! c)"
    using mergeTupleForInsert_ok [OF assms(1-6)] assms(7,8) by blast
  have ty: "m_aggTypes h ! aggIndex \<noteq> EXPRESSION_TYPE_INVALID"
    using assms(5,6,7) by (metis nth_mem)
  have at: "at_index (m_aggTypes h) aggIndex = Inr (m_aggTypes h ! aggIndex)"
    using assms(5,7) by (simp add: at_index_def)
  have 1: "d ! c = NullValue \<longrightarrow> u' ! c = ex ! c"
    using v by (auto simp: mergeInsertValue_def isNull_def)
  have 2: "d ! c \<noteq> NullValue \<and> ex ! c = NullValue \<longrightarrow> u' ! c = d ! c"
    using v ty at by (cases "m_aggTypes h ! aggIndex") (auto simp: mergeInsertValue_def isNull_def)
  have 3: "\<forall>a b. ex ! c = IntValue a \<and> d ! c = IntValue b \<longrightarrow>
        (m_aggTypes h ! aggIndex \<in> {EXPRESSION_TYPE_AGGREGATE_SUM, EXPRESSION_TYPE_AGGREGATE_COUNT,
                                    EXPRESSION_TYPE_AGGREGATE_COUNT_STAR}
           \<longrightarrow> u' ! c = IntValue (a + b)) \<and>
        (m_aggTypes h ! aggIndex = EXPRESSION_TYPE_AGGREGATE_MIN
           \<longrightarrow> u' ! c = (if a \<le> b then ex ! c else d ! c)) \<and>
        (m_aggTypes h ! aggIndex = EXPRESSION_TYPE_AGGREGATE_MAX
           \<longrightarrow> u' ! c = (if a \<ge> b then ex ! c else d ! c))"
  proof (intro allI impI)
    fix a b assume ab: "ex ! c = IntValue a \<and> d ! c = IntValue b"
    then have sw: "mergeInsertSwitch (m_aggTypes h ! aggIndex) (IntValue a) (IntValue b) = Inr (u' ! c)"
      using v at by (simp add: mergeInsertValue_def isNull_def)
    show "(m_aggTypes h ! aggIndex \<in> {EXPRESSION_TYPE_AGGREGATE_SUM, EXPRESSION_TYPE_AGGREGATE_COUNT,
                                    EXPRESSION_TYPE_AGGREGATE_COUNT_STAR}
           \<longrightarrow> u' ! c = IntValue (a + b)) \<and>
        (m_aggTypes h ! aggIndex = EXPRESSION_TYPE_AGGREGATE_MIN
           \<longrightarrow> u' ! c = (if a \<le> b then ex ! c else d ! c)) \<and>
        (m_aggTypes h ! aggIndex = EXPRESSION_TYPE_AGGREGATE_MAX
           \<longrightarrow> u' ! c = (if a \<ge> b then ex ! c else d ! c))"
      using sw ab by (cases "m_aggTypes h ! aggIndex") (simp_all add: isNull_def split: if_splits)
  qed
  from r 1 2 3 show ?thesis by (intro exI [of _ "s\<lparr>m_updatedTuple := u'\<rparr>"]) simp
qed

lemma mergeTupleForInsert_example:
  "mergeTupleForInsert grouped_view [IntValue 1, IntValue 1, IntValue 4, IntValue 4, IntValue 4]
     grouped_state =
   (Inr (), grouped_state\<lparr>m_updatedTuple :=
      [IntValue 1, IntValue 3, IntValue 16, IntValue 4, IntValue 7]\<rparr>)"
  by (simp add: mergeTupleForInsert_def grouped_view_def grouped_state_def existingTuple_def
      copyGroupByColumns.simps mergeInsertAggregates.simps mergeInsertValue_def
      getNValue_def setNValue_def at_index_def isNull_def)

theorem mergeTupleForInsert_aggregate_column_witness:
  "\<exists>s'. mergeTupleForInsert grouped_view
           [IntValue 1, IntValue 1, IntValue 4, IntValue 4, IntValue 4] grouped_state = (Inr (), s') \<and>
        m_updatedTuple s' ! 2 = IntValue 16 \<and> m_updatedTuple s' ! 3 = IntValue 4 \<and>
        m_updatedTuple s' ! 4 = IntValue 7"
proof -
  let ?ex = "[IntValue 1, IntValue 2, IntValue 12, IntValue 5, IntValue 7]"
  let ?d = "[IntValue 1, IntValue 1, IntValue 4, IntValue 4, IntValue 4]"
  have a1: "existingTuple grouped_state = Some ?ex"
    by (simp add: existingTuple_def grouped_state_def)
  have a2: "length ?ex = m_groupByColumnCount grouped_view + m_aggColumnCount grouped_view"
    by (simp add: grouped_view_def)
  have a3: "length ?d = m_groupByColumnCount grouped_view + m_aggColumnCount grouped_view"
    by (simp add: grouped_view_def)
  have a4: "length (m_updatedTuple grouped_state)
              = m_groupByColumnCount grouped_view + m_aggColumnCount grouped_view"
    by (simp add: grouped_view_def grouped_state_def)
  have a5: "length (m_aggTypes grouped_view) = m_aggColumnCount grouped_view"
    by (simp add: grouped_view_def)
  have a6: "EXPRESSION_TYPE_INVALID \<notin> set (m_aggTypes grouped_view)"
    by (simp add: grouped_view_def)
  have sum: "(1::nat) < m_aggColumnCount grouped_view" "(2::nat) = m_groupByColumnCount grouped_view + 1"
    and mn: "(2::nat) < m_aggColumnCount grouped_view" "(3::nat) = m_groupByColumnCount grouped_view + 2"
    and mx: "(3::nat) < m_aggColumnCount grouped_view" "(4::nat) = m_groupByColumnCount grouped_view + 3"
    by (simp_all add: grouped_view_def)
  from mergeTupleForInsert_aggregate_column [OF a1 a2 a3 a4 a5 a6 sum]
  obtain s1 where r1: "mergeTupleForInsert grouped_view ?d grouped_state = (Inr (), s1)"
    and v1: "m_updatedTuple s1 ! 2 = IntValue 16"
    by (auto simp: grouped_view_def)
  from mergeTupleForInsert_aggregate_column [OF a1 a2 a3 a4 a5 a6 mn]
  obtain s2 where r2: "mergeTupleForInsert grouped_view ?d grouped_state = (Inr (), s2)"
    and v2: "m_updatedTuple s2 ! 3 = IntValue 4"
    by (auto simp: grouped_view_def)
  from mergeTupleForInsert_aggregate_column [OF a1 a2 a3 a4 a5 a6 mx]
  obtain s3 where r3: "mergeTupleForInsert grouped_view ?d grouped_state = (Inr (), s3)"
    and v3: "m_updatedTuple s3 ! 4 = IntValue 7"
    by (auto simp: grouped_view_def)
  from r1 r2 r3 have "s2 = s1" "s3 = s1" by simp_all
  with r1 v1 v2 v3 show ?thesis by blast
qed

subsection \<open>The fallback min/max query\<close>

lemma fallbackBackup_result:
  "fallbackBackup gb existing i b p = (Inr (), b', p') \<Longrightarrow> i \<le> gb \<Longrightarrow> length b = Suc gb \<Longrightarrow>
   length b' = Suc gb \<and> length p' = length p \<and>
   (\<forall>j. i \<le> j \<and> j < gb \<longrightarrow> j < length p \<and> b' ! j = p ! j) \<and>
   (\<forall>j. j < i \<or> gb \<le> j \<longrightarrow> b' ! j = b ! j \<and> p' ! j = p ! j)"
proof (induction "gb - i" arbitrary: i b p)
  case 0
  then have "i = gb" by simp
  with "0.prems" show ?case by (auto simp: fallbackBackup.simps)
next
  case (Suc m)
  then have lt: "i < gb" by simp
  from Suc.prems(1) lt have inr: "i < length p"
    by (subst (asm) fallbackBackup.simps) (auto simp: at_index_def split: if_splits)
  from Suc.prems(1) lt inr obtain v where gv: "getNValue existing i = Inr v"
    by (subst (asm) fallbackBackup.simps) (auto simp: at_index_def split: sum.splits)
  let ?b1 = "b[i := p ! i]" and ?p1 = "p[i := v]"
  have rec: "fallbackBackup gb existing (Suc i) ?b1 ?p1 = (Inr (), b', p')"
    using Suc.prems(1) lt inr gv
    by (subst (asm) fallbackBackup.simps) (simp add: at_index_def)
  have "m = gb - Suc i" using Suc.hyps(2) by simp
  moreover have "Suc i \<le> gb" using lt by simp
  moreover have "length ?b1 = Suc gb" using Suc.prems(3) by simp
  ultimately have ih:
    "length b' = Suc gb \<and> length p' = length ?p1 \<and>
     (\<forall>j. Suc i \<le> j \<and> j < gb \<longrightarrow> j < length ?p1 \<and> b' ! j = ?p1 ! j) \<and>
     (\<forall>j. j < Suc i \<or> gb \<le> j \<longrightarrow> b' ! j = ?b1 ! j \<and> p' ! j = ?p1 ! j)"
    using Suc.hyps(1) [of "Suc i" ?b1 ?p1] rec by blast
  have a: "\<forall>j. i \<le> j \<and> j < gb \<longrightarrow> j < length p \<and> b' ! j = p ! j"
  proof (intro allI impI)
    fix j assume j: "i \<le> j \<and> j < gb"
    show "j < length p \<and> b' ! j = p ! j"
    proof (cases "j = i")
      case True
      have "b' ! i = ?b1 ! i" using ih by simp
      also have "\<dots> = p ! i" using lt Suc.prems(3) by simp
      finally show ?thesis using True inr by simp
    next
      case False
      with j have "Suc i \<le> j \<and> j < gb" by simp
      with ih have "j < length ?p1 \<and> b' ! j = ?p1 ! j" by blast
      with False show ?thesis by simp
    qed
  qed
  have b: "\<forall>j. j < i \<or> gb \<le> j \<longrightarrow> b' ! j = b ! j \<and> p' ! j = p ! j"
  proof (intro allI impI)
    fix j assume j: "j < i \<or> gb \<le> j"
    with lt have ne: "j \<noteq> i" by auto
    from j lt have "j < Suc i \<or> gb \<le> j" by auto
    with ih have "b' ! j = ?b1 ! j \<and> p' ! j = ?p1 ! j" by blast
    with ne show "b' ! j = b ! j \<and> p' ! j = p ! j" by simp
  qed
  from ih a b show ?case by simp
qed

lemma fallbackRestore_result:
  "fallbackRestore gb i b p = (Inr (), p') \<Longrightarrow> i \<le> Suc gb \<Longrightarrow> length b = Suc gb \<Longrightarrow>
   length p' = length p \<and>
   (\<forall>j. i \<le> j \<and> j \<le> gb \<longrightarrow> j < length p \<and> p' ! j = b ! j) \<and>
   (\<forall>j. j < i \<or> gb < j \<longrightarrow> p' ! j = p ! j)"
proof (induction "Suc gb - i" arbitrary: i p)
  case 0
  then have "i = Suc gb" by simp
  with "0.prems" show ?case by (auto simp: fallbackRestore.simps)
next
  case (Suc m)
  then have le: "i \<le> gb" by simp
  then have ib: "i < length b" using Suc.prems(3) by simp
  from Suc.prems(1) le ib have ip: "i < length p"
    by (subst (asm) fallbackRestore.simps) (auto simp: at_index_def split: if_splits)
  let ?p1 = "p[i := b ! i]"
  have rec: "fallbackRestore gb (Suc i) b ?p1 = (Inr (), p')"
    using Suc.prems(1) le ib ip
    by (subst (asm) fallbackRestore.simps) (simp add: at_index_def)
  have "m = Suc gb - Suc i" using Suc.hyps(2) by simp
  moreover have "Suc i \<le> Suc gb" using le by simp
  ultimately have ih:
    "length p' = length ?p1 \<and>
     (\<forall>j. Suc i \<le> j \<and> j \<le> gb \<longrightarrow> j < length ?p1 \<and> p' ! j = b ! j) \<and>
     (\<forall>j. j < Suc i \<or> gb < j \<longrightarrow> p' ! j = ?p1 ! j)"
    using Suc.hyps(1) [of "Suc i" ?p1] rec Suc.prems(3) by blast
  have a: "\<forall>j. i \<le> j \<and> j \<le> gb \<longrightarrow> j < length p \<and> p' ! j = b ! j"
  proof (intro allI impI)
    fix j assume j: "i \<le> j \<and> j \<le> gb"
    show "j < length p \<and> p' ! j = b ! j"
    proof (cases "j = i")
      case True
      have "p' ! i = ?p1 ! i" using ih by simp
      with True ip show ?thesis by simp
    next
      case False
      with j have "Suc i \<le> j \<and> j \<le> gb" by simp
      with ih show ?thesis by simp
    qed
  qed
  have b: "\<forall>j. j < i \<or> gb < j \<longrightarrow> p' ! j = p ! j"
  proof (intro allI impI)
    fix j assume j: "j < i \<or> gb < j"
    with le have ne: "j \<noteq> i" by auto
    from j have "j < Suc i \<or> gb < j" by auto
    with ih have "p' ! j = ?p1 ! j" by blast
    with ne show "p' ! j = p ! j" by simp
  qed
  from ih a b show ?case by simp
qed

lemma executeExecutors_frame:
  "executeExecutors exec ev s = (r, s') \<Longrightarrow>
   s' = s\<lparr>ec_executed := ec_executed s @
            [\<lparr>ev_plan = ev, ev_params = ec_params s, ev_delta = delta_tables s\<rparr>]\<rparr>"
  by (auto simp: executeExecutors_def split: option.splits)

lemma fallbackMinMaxColumn_returns:
  assumes "fallbackMinMaxColumn exec h c m s = (Inr nv, s')"
  obtains b ps p v0 ev ps' where
    "fallbackBackup (m_groupByColumnCount h) (existingTuple s) 0
       (replicate (m_groupByColumnCount h + 1) NullValue) (ec_params s) = (Inr (), b, ps)"
    and "at_index ps (m_groupByColumnCount h) = Inr p"
    and "at_index (m_minMaxExecutorVectors h) m = Inr ev"
    and "fallbackRestore (m_groupByColumnCount h) 0 (b[m_groupByColumnCount h := p])
           (ps[m_groupByColumnCount h := v0]) = (Inr (), ps')"
    and "s' = s\<lparr>ec_params := ps',
               ec_executed := ec_executed s @
                 [\<lparr>ev_plan = ev, ev_params = ps[m_groupByColumnCount h := v0],
                   ev_delta = delta_tables s\<rparr>]\<rparr>"
    and "\<exists>rows. exec ev (ps[m_groupByColumnCount h := v0]) (delta_tables s) = Some rows \<and>
           (case rows of [] \<Rightarrow> Inr NullValue
            | resultTuple # _ \<Rightarrow> getNValue (Some resultTuple) 0) = Inr nv"
proof -
  let ?gb = "m_groupByColumnCount h"
  obtain r0 b ps where bk: "fallbackBackup ?gb (existingTuple s) 0
       (replicate (?gb + 1) NullValue) (ec_params s) = (r0, b, ps)"
    by (metis prod_cases3)
  from assms bk have r0: "r0 = Inr ()"
    by (cases r0) (simp_all add: fallbackMinMaxColumn_def)
  from assms bk r0 obtain p where p: "at_index ps ?gb = Inr p"
    by (cases "at_index ps ?gb") (simp_all add: fallbackMinMaxColumn_def)
  from assms bk r0 p obtain v0 where v0: "getNValue (existingTuple s) c = Inr v0"
    by (cases "getNValue (existingTuple s) c") (simp_all add: fallbackMinMaxColumn_def)
  from assms bk r0 p v0 obtain ev where ev: "at_index (m_minMaxExecutorVectors h) m = Inr ev"
    by (cases "at_index (m_minMaxExecutorVectors h) m") (simp_all add: fallbackMinMaxColumn_def)
  let ?s0 = "s\<lparr>ec_params := ps[?gb := v0]\<rparr>"
  obtain r1 s1 where ex: "executeExecutors exec ev ?s0 = (r1, s1)"
    by (metis surj_pair)
  then have s1: "s1 = ?s0\<lparr>ec_executed := ec_executed ?s0 @
            [\<lparr>ev_plan = ev, ev_params = ec_params ?s0, ev_delta = delta_tables ?s0\<rparr>]\<rparr>"
    by (rule executeExecutors_frame)
  from assms bk r0 p v0 ev ex obtain rows where rows: "r1 = Inr rows"
    by (cases r1) (simp_all add: fallbackMinMaxColumn_def)
  let ?first = "case rows of [] \<Rightarrow> Inr NullValue | resultTuple # _ \<Rightarrow> getNValue (Some resultTuple) 0"
  from assms bk r0 p v0 ev ex rows obtain nv' where nv': "?first = Inr nv'"
    by (cases ?first) (simp_all add: fallbackMinMaxColumn_def)
  obtain r2 ps' where rs: "fallbackRestore ?gb 0 (b[?gb := p]) (ec_params s1) = (r2, ps')"
    by (metis surj_pair)
  from assms bk r0 p v0 ev ex rows nv' rs have r2: "r2 = Inr ()" and s': "s' = s1\<lparr>ec_params := ps'\<rparr>"
    by (cases r2; simp add: fallbackMinMaxColumn_def)+
  have "fallbackRestore ?gb 0 (b[?gb := p]) (ps[?gb := v0]) = (Inr (), ps')"
    using rs r2 s1 by simp
  moreover have "s' = s\<lparr>ec_params := ps',
               ec_executed := ec_executed s @
                 [\<lparr>ev_plan = ev, ev_params = ps[?gb := v0], ev_delta = delta_tables s\<rparr>]\<rparr>"
    using s' s1 by simp
  moreover have "\<exists>rows. exec ev (ps[?gb := v0]) (delta_tables s) = Some rows \<and>
           (case rows of [] \<Rightarrow> Inr NullValue
            | resultTuple # _ \<Rightarrow> getNValue (Some resultTuple) 0) = Inr nv"
  proof -
    from ex rows have "exec ev (ps[?gb := v0]) (delta_tables s) = Some rows"
      by (auto simp: executeExecutors_def split: option.splits)
    moreover from assms bk r0 p v0 ev ex rows nv' rs r2 have "nv' = nv"
      by (simp add: fallbackMinMaxColumn_def)
    ultimately show ?thesis using nv' by blast
  qed
  ultimately show ?thesis using that bk r0 p ev by blast
qed

text \<open>
  C7. When \<^verbatim>\<open>fallbackMinMaxColumn\<close> returns, the parameter array of the executor
  context is, slot by slot, what it was before the call: slots \<open>0\<close> to
  \<open>m_groupByColumnCount\<close> have been overwritten and put back, and no other slot has
  been written.
\<close>

theorem fallbackMinMaxColumn_restores_params:
  assumes "fallbackMinMaxColumn exec h columnIndex minMaxColumnIndex s = (Inr newValue, s')"
  shows "ec_params s' = ec_params s"
proof -
  let ?gb = "m_groupByColumnCount h"
  from assms obtain b ps p v0 ev ps' where
    bk: "fallbackBackup ?gb (existingTuple s) 0 (replicate (?gb + 1) NullValue) (ec_params s)
           = (Inr (), b, ps)"
    and p: "at_index ps ?gb = Inr p"
    and rs: "fallbackRestore ?gb 0 (b[?gb := p]) (ps[?gb := v0]) = (Inr (), ps')"
    and s': "s' = s\<lparr>ec_params := ps',
               ec_executed := ec_executed s @
                 [\<lparr>ev_plan = ev, ev_params = ps[?gb := v0], ev_delta = delta_tables s\<rparr>]\<rparr>"
    by (rule fallbackMinMaxColumn_returns)
  have B: "length b = Suc ?gb \<and> length ps = length (ec_params s) \<and>
           (\<forall>j. 0 \<le> j \<and> j < ?gb \<longrightarrow> j < length (ec_params s) \<and> b ! j = ec_params s ! j) \<and>
           (\<forall>j. j < 0 \<or> ?gb \<le> j \<longrightarrow>
                 b ! j = replicate (?gb + 1) NullValue ! j \<and> ps ! j = ec_params s ! j)"
    using fallbackBackup_result [OF bk] by simp
  from p have gbl: "?gb < length ps" and pv: "p = ps ! ?gb"
    by (auto simp: at_index_def split: if_splits)
  have R: "length ps' = length (ps[?gb := v0]) \<and>
           (\<forall>j. 0 \<le> j \<and> j \<le> ?gb \<longrightarrow> j < length (ps[?gb := v0]) \<and> ps' ! j = (b[?gb := p]) ! j) \<and>
           (\<forall>j. j < 0 \<or> ?gb < j \<longrightarrow> ps' ! j = (ps[?gb := v0]) ! j)"
    using fallbackRestore_result [OF rs] B by simp
  have "ps' = ec_params s"
  proof (rule nth_equalityI)
    show "length ps' = length (ec_params s)" using R B by simp
  next
    fix j assume j: "j < length ps'"
    show "ps' ! j = ec_params s ! j"
    proof (cases "j < ?gb")
      case True
      then have "ps' ! j = (b[?gb := p]) ! j" using R by simp
      also have "\<dots> = b ! j" using True by simp
      also have "\<dots> = ec_params s ! j" using B True by simp
      finally show ?thesis .
    next
      case False
      show ?thesis
      proof (cases "j = ?gb")
        case True
        then have "ps' ! j = (b[?gb := p]) ! ?gb" using R by simp
        also have "\<dots> = p" using B by simp
        also have "\<dots> = ec_params s ! ?gb" using pv B by simp
        finally show ?thesis using True by simp
      next
        case ne: False
        with False have gt: "?gb < j" by simp
        then have "ps' ! j = (ps[?gb := v0]) ! j" using R by simp
        also have "\<dots> = ps ! j" using gt by simp
        also have "\<dots> = ec_params s ! j" using B gt by simp
        finally show ?thesis .
      qed
    qed
  qed
  with s' show ?thesis by simp
qed

lemma fallbackMinMaxColumn_example:
  "fallbackMinMaxColumn scenario_runner grouped_view 3 0 grouped_state =
     (Inr (IntValue 7),
      grouped_state\<lparr>ec_executed :=
        [\<lparr>ev_plan = 1, ev_params = [IntValue 1, IntValue 5, IntValue 300], ev_delta = {}\<rparr>]\<rparr>)"
  by (simp add: fallbackMinMaxColumn_def grouped_view_def grouped_state_def existingTuple_def
      fallbackBackup.simps fallbackRestore.simps executeExecutors_def scenario_runner_def
      getNValue_def at_index_def)

theorem fallbackMinMaxColumn_restores_params_witness:
  "fallbackMinMaxColumn scenario_runner grouped_view 3 0 grouped_state =
     (Inr (IntValue 7),
      grouped_state\<lparr>ec_executed :=
        [\<lparr>ev_plan = 1, ev_params = [IntValue 1, IntValue 5, IntValue 300], ev_delta = {}\<rparr>]\<rparr>) \<and>
   ec_params (grouped_state\<lparr>ec_executed :=
        [\<lparr>ev_plan = 1, ev_params = [IntValue 1, IntValue 5, IntValue 300], ev_delta = {}\<rparr>]\<rparr>)
     = ec_params grouped_state"
proof -
  have run: "fallbackMinMaxColumn scenario_runner grouped_view 3 0 grouped_state =
     (Inr (IntValue 7),
      grouped_state\<lparr>ec_executed :=
        [\<lparr>ev_plan = 1, ev_params = [IntValue 1, IntValue 5, IntValue 300], ev_delta = {}\<rparr>]\<rparr>)"
    by (simp add: fallbackMinMaxColumn_def grouped_view_def grouped_state_def existingTuple_def
      fallbackBackup.simps fallbackRestore.simps executeExecutors_def scenario_runner_def
      getNValue_def at_index_def)
  from fallbackMinMaxColumn_restores_params [OF run] run show ?thesis by blast
qed

lemma only_fallback_runs_refl: "only_fallback_runs h s s"
  by (simp add: only_fallback_runs_def)

lemma only_fallback_runs_trans:
  assumes "only_fallback_runs h s s1" and "only_fallback_runs h s1 s2"
  shows "only_fallback_runs h s s2"
proof -
  from assms(1) obtain evs1 where d1: "delta_tables s1 = delta_tables s"
    and e1: "ec_executed s1 = ec_executed s @ evs1"
    and p1: "\<forall>e \<in> set evs1. ev_plan e \<in> set (m_minMaxExecutorVectors h) \<and> ev_delta e = delta_tables s"
    unfolding only_fallback_runs_def by blast
  from assms(2) obtain evs2 where d2: "delta_tables s2 = delta_tables s1"
    and e2: "ec_executed s2 = ec_executed s1 @ evs2"
    and p2: "\<forall>e \<in> set evs2. ev_plan e \<in> set (m_minMaxExecutorVectors h) \<and> ev_delta e = delta_tables s1"
    unfolding only_fallback_runs_def by blast
  have "ec_executed s2 = ec_executed s @ (evs1 @ evs2)" using e1 e2 by simp
  moreover have "\<forall>e \<in> set (evs1 @ evs2).
      ev_plan e \<in> set (m_minMaxExecutorVectors h) \<and> ev_delta e = delta_tables s"
    using p1 p2 d1 by auto
  ultimately show ?thesis unfolding only_fallback_runs_def using d1 d2 by metis
qed

lemma only_fallback_runs_same:
  "delta_tables s' = delta_tables s \<Longrightarrow> ec_executed s' = ec_executed s \<Longrightarrow> only_fallback_runs h s s'"
  by (simp add: only_fallback_runs_def)

text \<open>What \<open>fallbackMinMaxColumn\<close> leaves alone, however it ends.\<close>

lemma fallbackMinMaxColumn_frame:
  assumes "fallbackMinMaxColumn exec h c m s = (r, s')"
  shows "m_destTable s' = m_destTable s \<and> m_existingTuple s' = m_existingTuple s \<and>
         m_updatedTuple s' = m_updatedTuple s \<and> only_fallback_runs h s s'"
proof -
  let ?gb = "m_groupByColumnCount h"
  obtain r0 b ps where bk: "fallbackBackup ?gb (existingTuple s) 0
       (replicate (?gb + 1) NullValue) (ec_params s) = (r0, b, ps)"
    by (metis prod_cases3)
  show ?thesis
  proof (cases r0)
    case (Inl e)
    with assms bk have "s' = s\<lparr>ec_params := ps\<rparr>" by (simp add: fallbackMinMaxColumn_def)
    then show ?thesis by (simp add: only_fallback_runs_def)
  next
    case (Inr u)
    note r0 = this
    show ?thesis
    proof (cases "at_index ps ?gb")
      case (Inl e)
      with assms bk r0 have "s' = s\<lparr>ec_params := ps\<rparr>" by (simp add: fallbackMinMaxColumn_def)
      then show ?thesis by (simp add: only_fallback_runs_def)
    next
      case (Inr p)
      note p = this
      show ?thesis
      proof (cases "getNValue (existingTuple s) c")
        case (Inl e)
        with assms bk r0 p have "s' = s\<lparr>ec_params := ps\<rparr>" by (simp add: fallbackMinMaxColumn_def)
        then show ?thesis by (simp add: only_fallback_runs_def)
      next
        case (Inr v0)
        note v0 = this
        show ?thesis
        proof (cases "at_index (m_minMaxExecutorVectors h) m")
          case (Inl e)
          with assms bk r0 p v0 have "s' = s\<lparr>ec_params := ps[?gb := v0]\<rparr>"
            by (simp add: fallbackMinMaxColumn_def)
          then show ?thesis by (simp add: only_fallback_runs_def)
        next
          case (Inr ev)
          note ev = this
          then have evin: "ev \<in> set (m_minMaxExecutorVectors h)"
            by (auto simp: at_index_def split: if_splits)
          let ?s0 = "s\<lparr>ec_params := ps[?gb := v0]\<rparr>"
          obtain r1 s1 where ex: "executeExecutors exec ev ?s0 = (r1, s1)"
            by (metis surj_pair)
          then have s1: "s1 = ?s0\<lparr>ec_executed := ec_executed ?s0 @
              [\<lparr>ev_plan = ev, ev_params = ec_params ?s0, ev_delta = delta_tables ?s0\<rparr>]\<rparr>"
            by (rule executeExecutors_frame)
          have "\<exists>ps'. s' = s1\<lparr>ec_params := ps'\<rparr>"
          proof (cases r1)
            case (Inl e)
            with assms bk r0 p v0 ev ex have "s' = s1" by (simp add: fallbackMinMaxColumn_def)
            then show ?thesis by (metis ee_state.surjective ee_state.update_convs(4))
          next
            case (Inr rows)
            note rows = this
            let ?first = "case rows of [] \<Rightarrow> Inr NullValue
                          | resultTuple # _ \<Rightarrow> getNValue (Some resultTuple) 0"
            show ?thesis
            proof (cases ?first)
              case (Inl e)
              with assms bk r0 p v0 ev ex rows have "s' = s1" by (simp add: fallbackMinMaxColumn_def)
              then show ?thesis by (metis ee_state.surjective ee_state.update_convs(4))
            next
              case (Inr nv)
              obtain r2 ps' where rs: "fallbackRestore ?gb 0 (b[?gb := p]) (ec_params s1) = (r2, ps')"
                by (metis surj_pair)
              with assms bk r0 p v0 ev ex rows Inr have "s' = s1\<lparr>ec_params := ps'\<rparr>"
                by (cases r2) (simp_all add: fallbackMinMaxColumn_def)
              then show ?thesis by blast
            qed
          qed
          then obtain ps' where "s' = s1\<lparr>ec_params := ps'\<rparr>" by blast
          with s1 evin show ?thesis by (simp add: only_fallback_runs_def)
        qed
      qed
    qed
  qed
qed

subsection \<open>The delete path\<close>

text \<open>The equations that evaluate the handler on a concrete input.\<close>

lemmas view_eval_simps =
  handleTupleDelete_def handleTupleDelete_row_def handleTupleInsert_def handleTupleInsert_row_def
  findExistingTuple_def mergeTupleForInsert_def mergeInsertValue_def
  mergeTupleForDelete_def mergeDeleteValue_def updateTupleWithSpecificIndexes_def deleteTuple_def
  insertPersistentTuple_def enterDeltaMode_def exitDeltaMode_def fallbackMinMaxColumn_def
  existingTuple_def executeExecutors_def getNValue_def setNValue_def at_index_def isNull_def
  copyGroupByColumns.simps mergeInsertAggregates.simps mergeDeleteZero.simps
  mergeDeleteAggregates.simps fallbackBackup.simps fallbackRestore.simps

lemma mergeDeleteValue_frame:
  assumes "mergeDeleteValue exec h ty e dv c mm s = (r, s')"
  shows "m_destTable s' = m_destTable s \<and> m_existingTuple s' = m_existingTuple s \<and>
         m_updatedTuple s' = m_updatedTuple s \<and> only_fallback_runs h s s'"
proof (cases "\<not> isNull dv \<and> (ty = EXPRESSION_TYPE_AGGREGATE_MIN \<or> ty = EXPRESSION_TYPE_AGGREGATE_MAX)
              \<and> compare e dv = 0")
  case True
  with assms have "fallbackMinMaxColumn exec h c mm s = (r, s')"
    by (auto simp: mergeDeleteValue_def)
  then show ?thesis by (rule fallbackMinMaxColumn_frame)
next
  case False
  with assms have "s' = s"
    by (cases ty) (auto simp: mergeDeleteValue_def split: if_splits)
  then show ?thesis by (simp add: only_fallback_runs_refl)
qed

lemma mergeDeleteAggregates_frame:
  "mergeDeleteAggregates exec h d aggIndex columnIndex mm s = (r, s') \<Longrightarrow>
   m_destTable s' = m_destTable s \<and> m_existingTuple s' = m_existingTuple s \<and>
   only_fallback_runs h s s'"
proof (induction "m_aggColumnCount h - aggIndex" arbitrary: aggIndex columnIndex mm s)
  case 0
  then have "\<not> aggIndex < m_aggColumnCount h" by simp
  with "0.prems" have "s' = s" by (subst (asm) mergeDeleteAggregates.simps) simp
  then show ?case by (simp add: only_fallback_runs_refl)
next
  case (Suc m)
  then have lt: "aggIndex < m_aggColumnCount h" by simp
  note run = Suc.prems [unfolded mergeDeleteAggregates.simps [of exec h d aggIndex columnIndex mm s]]
  show ?case
  proof (cases "getNValue (existingTuple s) columnIndex")
    case (Inl e)
    with run lt have "s' = s" by simp
    then show ?thesis by (simp add: only_fallback_runs_refl)
  next
    case (Inr existingValue)
    note ev = this
    show ?thesis
    proof (cases "getNValue (Some d) columnIndex")
      case (Inl e)
      with run lt ev have "s' = s" by simp
      then show ?thesis by (simp add: only_fallback_runs_refl)
    next
      case (Inr deltaValue)
      note dv = this
      show ?thesis
      proof (cases "at_index (m_aggTypes h) aggIndex")
        case (Inl e)
        with run lt ev dv have "s' = s" by simp
        then show ?thesis by (simp add: only_fallback_runs_refl)
      next
        case (Inr aggType)
        note ty = this
        obtain r1 s1 where mv: "mergeDeleteValue exec h aggType existingValue deltaValue
                                  columnIndex mm s = (r1, s1)"
          by (metis surj_pair)
        from mergeDeleteValue_frame [OF mv]
        have f1: "m_destTable s1 = m_destTable s" "m_existingTuple s1 = m_existingTuple s"
          "only_fallback_runs h s s1" by simp_all
        show ?thesis
        proof (cases r1)
          case (Inl e)
          with run lt ev dv ty mv have "s' = s1" by simp
          with f1 show ?thesis by simp
        next
          case (Inr newValue)
          note nv = this
          show ?thesis
          proof (cases "setNValue (m_updatedTuple s1) columnIndex newValue")
            case (Inl e)
            with run lt ev dv ty mv nv have "s' = s1" by simp
            with f1 show ?thesis by simp
          next
            case (Inr updated')
            let ?mm = "if aggType = EXPRESSION_TYPE_AGGREGATE_MIN
                          \<or> aggType = EXPRESSION_TYPE_AGGREGATE_MAX then Suc mm else mm"
            let ?s2 = "s1\<lparr>m_updatedTuple := updated'\<rparr>"
            from run lt ev dv ty mv nv Inr
            have rec: "mergeDeleteAggregates exec h d (Suc aggIndex) (Suc columnIndex) ?mm ?s2 = (r, s')"
              by simp
            have "m = m_aggColumnCount h - Suc aggIndex" using Suc.hyps(2) by simp
            from Suc.hyps(1) [OF this rec]
            have f2: "m_destTable s' = m_destTable ?s2" "m_existingTuple s' = m_existingTuple ?s2"
              "only_fallback_runs h ?s2 s'" by simp_all
            have "only_fallback_runs h s1 ?s2" by (simp add: only_fallback_runs_same)
            with f1(3) f2(3) have "only_fallback_runs h s s'"
              by (blast intro: only_fallback_runs_trans)
            with f1 f2 show ?thesis by simp
          qed
        qed
      qed
    qed
  qed
qed

lemma mergeTupleForDelete_frame:
  assumes "mergeTupleForDelete exec h d s = (r, s')"
  shows "m_destTable s' = m_destTable s \<and> m_existingTuple s' = m_existingTuple s \<and>
         only_fallback_runs h s s'"
proof -
  obtain r0 u where cp: "copyGroupByColumns (m_groupByColumnCount h) (existingTuple s) 0
                           (m_updatedTuple s) = (r0, u)"
    by (metis surj_pair)
  let ?s0 = "s\<lparr>m_updatedTuple := u\<rparr>"
  have base: "m_destTable ?s0 = m_destTable s" "m_existingTuple ?s0 = m_existingTuple s"
    "only_fallback_runs h s ?s0" by (simp_all add: only_fallback_runs_same)
  note run = assms [unfolded mergeTupleForDelete_def]
  show ?thesis
  proof (cases r0)
    case (Inl e)
    with run cp have "s' = ?s0" by simp
    with base show ?thesis by simp
  next
    case (Inr x)
    note r0 = this
    show ?thesis
    proof (cases "getNValue (existingTuple s) (m_countStarColumnIndex h)")
      case (Inl e)
      with run cp r0 have "s' = ?s0" by simp
      with base show ?thesis by simp
    next
      case (Inr existingCount)
      note ec = this
      show ?thesis
      proof (cases "getNValue (Some d) (m_countStarColumnIndex h)")
        case (Inl e)
        with run cp r0 ec have "s' = ?s0" by simp
        with base show ?thesis by simp
      next
        case (Inr deltaCount)
        note dc = this
        show ?thesis
        proof (cases "isZero (op_subtract existingCount deltaCount)")
          case True
          obtain r1 u' where "mergeDeleteZero h 0 (m_groupByColumnCount h) u = (r1, u')"
            by (metis surj_pair)
          with run cp r0 ec dc True have "s' = s\<lparr>m_updatedTuple := u'\<rparr>" by simp
          then show ?thesis by (simp add: only_fallback_runs_same)
        next
          case False
          with run cp r0 ec dc
          have "mergeDeleteAggregates exec h d 0 (m_groupByColumnCount h) 0 ?s0 = (r, s')" by simp
          from mergeDeleteAggregates_frame [OF this] base show ?thesis
            by (auto intro: only_fallback_runs_trans)
        qed
      qed
    qed
  qed
qed

lemma findExistingTuple_frame:
  assumes "findExistingTuple h d s = (r, s')"
  shows "m_destTable s' = m_destTable s \<and> m_updatedTuple s' = m_updatedTuple s \<and>
         ec_params s' = ec_params s \<and> delta_tables s' = delta_tables s \<and>
         ec_executed s' = ec_executed s"
  using assms
  by (auto simp: findExistingTuple_def split: if_splits list.splits option.splits)

lemma deleteTuple_frame:
  assumes "deleteTuple s = (r, s')"
  shows "ec_params s' = ec_params s \<and> delta_tables s' = delta_tables s \<and>
         ec_executed s' = ec_executed s"
  using assms
  by (auto simp: deleteTuple_def split: if_splits option.splits)

lemma updateTupleWithSpecificIndexes_frame:
  assumes "updateTupleWithSpecificIndexes s = (r, s')"
  shows "length (m_destTable s') = length (m_destTable s) \<and>
         ec_params s' = ec_params s \<and> delta_tables s' = delta_tables s \<and>
         ec_executed s' = ec_executed s"
  using assms
  by (auto simp: updateTupleWithSpecificIndexes_def split: if_splits option.splits)

lemma handleTupleDelete_row_runs:
  assumes "handleTupleDelete_row exec h d s = (r, s')"
  shows "only_fallback_runs h s s'"
proof -
  obtain r0 s1 where fe: "findExistingTuple h d s = (r0, s1)" by (metis surj_pair)
  from findExistingTuple_frame [OF fe] have b0: "only_fallback_runs h s s1"
    by (auto simp: only_fallback_runs_same)
  note run = assms [unfolded handleTupleDelete_row_def]
  show ?thesis
  proof (cases r0)
    case (Inl e)
    with run fe have "s' = s1" by simp
    with b0 show ?thesis by simp
  next
    case (Inr found)
    note r0 = this
    show ?thesis
    proof (cases found)
      case False
      with run fe r0 have "s' = s1" by simp
      with b0 show ?thesis by simp
    next
      case True
      note found = this
      show ?thesis
      proof (cases "getNValue (existingTuple s1) (m_countStarColumnIndex h)")
        case (Inl e)
        with run fe r0 found have "s' = s1" by simp
        with b0 show ?thesis by simp
      next
        case (Inr existingCount)
        note ec = this
        show ?thesis
        proof (cases "getNValue (Some d) (m_countStarColumnIndex h)")
          case (Inl e)
          with run fe r0 found ec have "s' = s1" by simp
          with b0 show ?thesis by simp
        next
          case (Inr deltaCount)
          note dc = this
          show ?thesis
          proof (cases "compare existingCount deltaCount = 0 \<and> m_groupByColumnCount h > 0")
            case True
            with run fe r0 found ec dc have "deleteTuple s1 = (r, s')" by simp
            from deleteTuple_frame [OF this] have "only_fallback_runs h s1 s'"
              by (auto simp: only_fallback_runs_same)
            with b0 show ?thesis by (blast intro: only_fallback_runs_trans)
          next
            case False
            obtain r2 s2 where mg: "mergeTupleForDelete exec h d s1 = (r2, s2)"
              by (metis surj_pair)
            from mergeTupleForDelete_frame [OF mg] have b2: "only_fallback_runs h s1 s2" by simp
            show ?thesis
            proof (cases r2)
              case (Inl e)
              with run fe r0 found ec dc False mg have "s' = s2" by auto
              with b0 b2 show ?thesis by (blast intro: only_fallback_runs_trans)
            next
              case (Inr x)
              with run fe r0 found ec dc False mg
              have "updateTupleWithSpecificIndexes s2 = (r, s')" by auto
              from updateTupleWithSpecificIndexes_frame [OF this]
              have "only_fallback_runs h s2 s'" by (auto simp: only_fallback_runs_same)
              with b0 b2 show ?thesis by (blast intro: only_fallback_runs_trans)
            qed
          qed
        qed
      qed
    qed
  qed
qed

lemma handleTupleDelete_rows_runs:
  "handleTupleDelete_rows exec h ds s = (r, s') \<Longrightarrow> only_fallback_runs h s s'"
proof (induction ds arbitrary: s)
  case Nil
  then show ?case by (simp add: only_fallback_runs_refl)
next
  case (Cons d ds)
  obtain r1 s1 where row: "handleTupleDelete_row exec h d s = (r1, s1)" by (metis surj_pair)
  from handleTupleDelete_row_runs [OF row] have b1: "only_fallback_runs h s s1" .
  show ?case
  proof (cases r1)
    case (Inl e)
    with Cons.prems row have "s' = s1" by simp
    with b1 show ?thesis by simp
  next
    case (Inr x)
    with Cons.prems row have "handleTupleDelete_rows exec h ds s1 = (r, s')" by simp
    from Cons.IH [OF this] b1 show ?thesis by (blast intro: only_fallback_runs_trans)
  qed
qed

text \<open>
  C6. In \<^verbatim>\<open>handleTupleDelete\<close>, however the call ends, the plans run are the
  create query, run with the source table in delta mode, followed only by fallback
  min/max queries, each of them run with the source table out of delta mode.
\<close>

theorem handleTupleDelete_fallback_outside_delta_mode:
  assumes "handleTupleDelete exec h sourceTable s = (r, s')"
  shows "\<exists>evs. ec_executed s' =
           ec_executed s @
             \<lparr>ev_plan = m_createQueryExecutorVector h, ev_params = ec_params s,
              ev_delta = insert sourceTable (delta_tables s)\<rparr> # evs \<and>
           (\<forall>e \<in> set evs. ev_plan e \<in> set (m_minMaxExecutorVectors h) \<and>
                           sourceTable \<notin> ev_delta e)"
proof -
  let ?s0 = "enterDeltaMode sourceTable s"
  let ?ev = "\<lparr>ev_plan = m_createQueryExecutorVector h, ev_params = ec_params s,
              ev_delta = insert sourceTable (delta_tables s)\<rparr>"
  obtain r1 s1 where ex: "executeExecutors exec (m_createQueryExecutorVector h) ?s0 = (r1, s1)"
    by (metis surj_pair)
  from executeExecutors_frame [OF ex]
  have s1: "ec_executed s1 = ec_executed s @ [?ev]"
    and d1: "delta_tables s1 = insert sourceTable (delta_tables s)"
    by (simp_all add: enterDeltaMode_def)
  note run = assms [unfolded handleTupleDelete_def]
  show ?thesis
  proof (cases r1)
    case (Inl e)
    with run ex have "s' = s1" by simp
    with s1 show ?thesis by simp
  next
    case (Inr delta)
    let ?s2 = "exitDeltaMode sourceTable s1"
    from Inr run ex have "handleTupleDelete_rows exec h delta ?s2 = (r, s')" by simp
    from handleTupleDelete_rows_runs [OF this] obtain evs where
      e: "ec_executed s' = ec_executed ?s2 @ evs"
      and p: "\<forall>e \<in> set evs. ev_plan e \<in> set (m_minMaxExecutorVectors h) \<and>
                              ev_delta e = delta_tables ?s2"
      unfolding only_fallback_runs_def by blast
    have "sourceTable \<notin> delta_tables ?s2" by (simp add: exitDeltaMode_def)
    with p have "\<forall>e \<in> set evs. ev_plan e \<in> set (m_minMaxExecutorVectors h) \<and>
                              sourceTable \<notin> ev_delta e" by simp
    moreover have "ec_executed s' = ec_executed s @ ?ev # evs"
      using e s1 by (simp add: exitDeltaMode_def)
    ultimately show ?thesis by blast
  qed
qed

lemma handleTupleDelete_example:
  "handleTupleDelete scenario_runner grouped_view 7 grouped_state =
     (Inr (),
      grouped_state\<lparr>m_destTable := [[IntValue 1, IntValue 1, IntValue 7, IntValue 7, IntValue 7],
                                     [IntValue 2, IntValue 1, IntValue 3, IntValue 3, IntValue 3]],
                    m_updatedTuple := [IntValue 1, IntValue 1, IntValue 7, IntValue 7, IntValue 7],
                    ec_executed :=
                      [\<lparr>ev_plan = 0, ev_params = [IntValue 100, IntValue 200, IntValue 300],
                        ev_delta = {7}\<rparr>,
                       \<lparr>ev_plan = 1, ev_params = [IntValue 1, IntValue 5, IntValue 300],
                        ev_delta = {}\<rparr>]\<rparr>)"
  by (simp add: handleTupleDelete_def handleTupleDelete_row_def findExistingTuple_def
      mergeTupleForDelete_def mergeDeleteValue_def updateTupleWithSpecificIndexes_def
      enterDeltaMode_def exitDeltaMode_def
      fallbackMinMaxColumn_def grouped_view_def grouped_state_def existingTuple_def
      copyGroupByColumns.simps mergeDeleteAggregates.simps
      fallbackBackup.simps fallbackRestore.simps executeExecutors_def scenario_runner_def
      getNValue_def setNValue_def at_index_def isNull_def)

theorem handleTupleDelete_fallback_outside_delta_mode_witness:
  "handleTupleDelete scenario_runner grouped_view 7 grouped_state =
     (Inr (),
      grouped_state\<lparr>m_destTable := [[IntValue 1, IntValue 1, IntValue 7, IntValue 7, IntValue 7],
                                     [IntValue 2, IntValue 1, IntValue 3, IntValue 3, IntValue 3]],
                    m_updatedTuple := [IntValue 1, IntValue 1, IntValue 7, IntValue 7, IntValue 7],
                    ec_executed :=
                      [\<lparr>ev_plan = 0, ev_params = [IntValue 100, IntValue 200, IntValue 300],
                        ev_delta = {7}\<rparr>,
                       \<lparr>ev_plan = 1, ev_params = [IntValue 1, IntValue 5, IntValue 300],
                        ev_delta = {}\<rparr>]\<rparr>) \<and>
   (7::nat) \<notin> ev_delta \<lparr>ev_plan = 1, ev_params = [IntValue 1, IntValue 5, IntValue 300],
                          ev_delta = {}\<rparr> \<and>
   ev_plan \<lparr>ev_plan = 1, ev_params = [IntValue 1, IntValue 5, IntValue 300],
            ev_delta = ({} :: nat set)\<rparr> \<in> set (m_minMaxExecutorVectors grouped_view)"
proof -
  let ?fb = "\<lparr>ev_plan = 1, ev_params = [IntValue 1, IntValue 5, IntValue 300],
              ev_delta = ({} :: nat set)\<rparr>"
  note run = handleTupleDelete_example
  from handleTupleDelete_fallback_outside_delta_mode [OF run] obtain evs where
    e: "[\<lparr>ev_plan = 0, ev_params = [IntValue 100, IntValue 200, IntValue 300], ev_delta = {7}\<rparr>, ?fb]
          = ec_executed grouped_state @
             \<lparr>ev_plan = m_createQueryExecutorVector grouped_view, ev_params = ec_params grouped_state,
              ev_delta = insert 7 (delta_tables grouped_state)\<rparr> # evs"
    and p: "\<forall>e \<in> set evs. ev_plan e \<in> set (m_minMaxExecutorVectors grouped_view) \<and>
                           7 \<notin> ev_delta e"
    by auto
  from e have "evs = [?fb]" by (simp add: grouped_state_def)
  with p have "ev_plan ?fb \<in> set (m_minMaxExecutorVectors grouped_view) \<and> 7 \<notin> ev_delta ?fb"
    by simp
  with run show ?thesis by simp
qed

lemma getNValue_not_fatal: "getNValue t i \<noteq> Inl FatalException"
  by (simp add: getNValue_def split: option.splits)

lemma setNValue_not_fatal: "setNValue t i v \<noteq> Inl FatalException"
  by (simp add: setNValue_def)

lemma at_index_not_fatal: "at_index xs i \<noteq> Inl FatalException"
  by (simp add: at_index_def)

lemma executeExecutors_not_fatal: "executeExecutors exec ev s \<noteq> (Inl FatalException, y)"
  by (simp add: executeExecutors_def split: option.splits)

lemma copyGroupByColumns_not_fatal:
  "copyGroupByColumns gb existing colindex u \<noteq> (Inl FatalException, y)"
proof (induction gb existing colindex u rule: copyGroupByColumns.induct)
  case (1 gb existing colindex updated)
  show ?case
    using 1
    by (subst copyGroupByColumns.simps)
       (auto simp: getNValue_not_fatal setNValue_not_fatal split: sum.splits if_splits)
qed

lemma fallbackBackup_not_fatal:
  "fallbackBackup gb existing i b p \<noteq> (Inl FatalException, y)"
proof (induction gb existing i b p rule: fallbackBackup.induct)
  case (1 gb existing i backups ps)
  show ?case
    using 1
    by (subst fallbackBackup.simps)
       (auto simp: getNValue_not_fatal at_index_not_fatal split: sum.splits if_splits)
qed

lemma fallbackRestore_not_fatal:
  "fallbackRestore gb i b p \<noteq> (Inl FatalException, y)"
proof (induction gb i b p rule: fallbackRestore.induct)
  case (1 gb i backups ps)
  show ?case
    using 1
    by (subst fallbackRestore.simps)
       (auto simp: at_index_not_fatal split: sum.splits if_splits)
qed

lemma mergeDeleteZero_not_fatal:
  "mergeDeleteZero h aggIndex columnIndex u \<noteq> (Inl FatalException, y)"
proof (induction h aggIndex columnIndex u rule: mergeDeleteZero.induct)
  case (1 h aggIndex columnIndex updated)
  show ?case
    using 1
    by (subst mergeDeleteZero.simps)
       (auto simp: at_index_not_fatal setNValue_not_fatal split: sum.splits if_splits)
qed

lemma fallbackMinMaxColumn_not_fatal:
  "fallbackMinMaxColumn exec h c m s \<noteq> (Inl FatalException, y)"
  by (auto simp: fallbackMinMaxColumn_def fallbackBackup_not_fatal fallbackRestore_not_fatal
        executeExecutors_not_fatal getNValue_not_fatal at_index_not_fatal
      split: sum.splits prod.splits list.splits)

lemma mergeDeleteValue_not_fatal:
  "mergeDeleteValue exec h ty e dv c mm s \<noteq> (Inl FatalException, y)"
  by (cases ty) (simp_all add: mergeDeleteValue_def fallbackMinMaxColumn_not_fatal)

lemma mergeDeleteAggregates_not_fatal:
  "mergeDeleteAggregates exec h d aggIndex columnIndex mm s \<noteq> (Inl FatalException, y)"
proof (induction "m_aggColumnCount h - aggIndex" arbitrary: aggIndex columnIndex mm s)
  case 0
  then show ?case by (subst mergeDeleteAggregates.simps) simp
next
  case (Suc m)
  have ih: "\<And>c' mm' s'. mergeDeleteAggregates exec h d (Suc aggIndex) c' mm' s'
              \<noteq> (Inl FatalException, y)"
    using Suc.hyps(1) [of "Suc aggIndex"] Suc.hyps(2) by simp
  have lt: "aggIndex < m_aggColumnCount h" using Suc.hyps(2) by simp
  show ?case
    by (subst mergeDeleteAggregates.simps)
       (simp add: ih lt getNValue_not_fatal at_index_not_fatal setNValue_not_fatal
          mergeDeleteValue_not_fatal split: sum.splits prod.splits split del: if_split)
qed

lemma mergeTupleForDelete_not_fatal:
  "mergeTupleForDelete exec h d s \<noteq> (Inl FatalException, y)"
  by (auto simp: mergeTupleForDelete_def copyGroupByColumns_not_fatal getNValue_not_fatal
        mergeDeleteZero_not_fatal mergeDeleteAggregates_not_fatal
      split: sum.splits prod.splits)

subsection \<open>One delta row of the delete path\<close>

lemma mergeDeleteZero_ok:
  assumes ty: "length (m_aggTypes h) = m_aggColumnCount h"
  shows "aggIndex \<le> m_aggColumnCount h \<Longrightarrow> length u = gb + m_aggColumnCount h \<Longrightarrow>
   \<exists>u'. mergeDeleteZero h aggIndex (gb + aggIndex) u = (Inr (), u') \<and>
        length u' = length u \<and>
        (\<forall>j < gb + aggIndex. u' ! j = u ! j) \<and>
        (\<forall>k. aggIndex \<le> k \<and> k < m_aggColumnCount h \<longrightarrow>
             u' ! (gb + k) =
               (if m_aggTypes h ! k = EXPRESSION_TYPE_AGGREGATE_COUNT
                   \<or> m_aggTypes h ! k = EXPRESSION_TYPE_AGGREGATE_COUNT_STAR
                then IntValue 0 else NullValue))"
proof (induction "m_aggColumnCount h - aggIndex" arbitrary: aggIndex u)
  case 0
  then have "aggIndex = m_aggColumnCount h" by simp
  then show ?case by (auto simp: mergeDeleteZero.simps)
next
  case (Suc m)
  then have lt: "aggIndex < m_aggColumnCount h" by simp
  let ?v = "if m_aggTypes h ! aggIndex = EXPRESSION_TYPE_AGGREGATE_COUNT
                   \<or> m_aggTypes h ! aggIndex = EXPRESSION_TYPE_AGGREGATE_COUNT_STAR
                then IntValue 0 else NullValue"
  let ?u1 = "u[gb + aggIndex := ?v]"
  have step: "mergeDeleteZero h aggIndex (gb + aggIndex) u
                = mergeDeleteZero h (Suc aggIndex) (gb + Suc aggIndex) ?u1"
    using lt ty Suc.prems
    by (subst mergeDeleteZero.simps) (simp add: at_index_def setNValue_def)
  have "m = m_aggColumnCount h - Suc aggIndex" using Suc.hyps(2) by simp
  moreover have "Suc aggIndex \<le> m_aggColumnCount h" using lt by simp
  moreover have "length ?u1 = gb + m_aggColumnCount h" using Suc.prems by simp
  ultimately obtain u' where
    r: "mergeDeleteZero h (Suc aggIndex) (gb + Suc aggIndex) ?u1 = (Inr (), u')"
    and l: "length u' = length ?u1"
    and keep: "\<forall>j < gb + Suc aggIndex. u' ! j = ?u1 ! j"
    and vals: "\<forall>k. Suc aggIndex \<le> k \<and> k < m_aggColumnCount h \<longrightarrow>
             u' ! (gb + k) =
               (if m_aggTypes h ! k = EXPRESSION_TYPE_AGGREGATE_COUNT
                   \<or> m_aggTypes h ! k = EXPRESSION_TYPE_AGGREGATE_COUNT_STAR
                then IntValue 0 else NullValue)"
    using Suc.hyps(1) [of "Suc aggIndex" ?u1] by blast
  have here: "u' ! (gb + aggIndex) = ?v"
    using keep lt Suc.prems by simp
  have "\<forall>j < gb + aggIndex. u' ! j = u ! j"
    using keep by simp
  moreover have "\<forall>k. aggIndex \<le> k \<and> k < m_aggColumnCount h \<longrightarrow>
             u' ! (gb + k) =
               (if m_aggTypes h ! k = EXPRESSION_TYPE_AGGREGATE_COUNT
                   \<or> m_aggTypes h ! k = EXPRESSION_TYPE_AGGREGATE_COUNT_STAR
                then IntValue 0 else NullValue)"
  proof (intro allI impI)
    fix k assume k: "aggIndex \<le> k \<and> k < m_aggColumnCount h"
    show "u' ! (gb + k) =
               (if m_aggTypes h ! k = EXPRESSION_TYPE_AGGREGATE_COUNT
                   \<or> m_aggTypes h ! k = EXPRESSION_TYPE_AGGREGATE_COUNT_STAR
                then IntValue 0 else NullValue)"
    proof (cases "k = aggIndex")
      case True
      with here show ?thesis by simp
    next
      case False
      with k vals show ?thesis by simp
    qed
  qed
  ultimately show ?case using step r l by simp
qed

lemma compare_IntValue_eq_0: "compare (IntValue a) (IntValue b) = 0 \<longleftrightarrow> a - b = 0"
  by simp

text \<open>
  C4. In the delete path, for a delta row whose existing view row has been found (at
  position \<open>i\<close>) and whose counts are not null: the existing row is deleted exactly
  when the new count \<open>a - b\<close> is zero and there is a group-by column; in every other
  case merge-for-delete runs and the row is overwritten in place with the updated
  tuple; and when the new count is zero without group-by columns, that updated tuple
  has zero in every COUNT and COUNT_STAR column and NULL in every other aggregate column.
\<close>

theorem handleTupleDelete_row_deletes_or_merges:
  assumes "findExistingTuple h d s = (Inr True, s1)"
    and "m_existingTuple s1 = Some i" and "i < length (m_destTable s1)"
    and "getNValue (Some (m_destTable s1 ! i)) (m_countStarColumnIndex h) = Inr (IntValue a)"
    and "getNValue (Some d) (m_countStarColumnIndex h) = Inr (IntValue b)"
  shows "(a - b = 0 \<and> 0 < m_groupByColumnCount h \<longrightarrow>
            handleTupleDelete_row exec h d s =
              (Inr (), s1\<lparr>m_destTable := take i (m_destTable s1) @ drop (Suc i) (m_destTable s1)\<rparr>)) \<and>
         (\<not> (a - b = 0 \<and> 0 < m_groupByColumnCount h) \<longrightarrow>
            handleTupleDelete_row exec h d s =
              (case mergeTupleForDelete exec h d s1 of
                 (Inl e, s2) \<Rightarrow> (Inl e, s2)
               | (Inr _, s2) \<Rightarrow>
                   (Inr (), s2\<lparr>m_destTable := (m_destTable s1)[i := m_updatedTuple s2]\<rparr>))) \<and>
         (a - b = 0 \<and> m_groupByColumnCount h = 0 \<and>
          length (m_updatedTuple s1) = m_aggColumnCount h \<and>
          length (m_aggTypes h) = m_aggColumnCount h \<longrightarrow>
            mergeTupleForDelete exec h d s1 =
              (Inr (), s1\<lparr>m_updatedTuple :=
                 map (\<lambda>ty. if ty = EXPRESSION_TYPE_AGGREGATE_COUNT
                                \<or> ty = EXPRESSION_TYPE_AGGREGATE_COUNT_STAR
                             then IntValue 0 else NullValue) (m_aggTypes h)\<rparr>))"
proof (intro conjI impI)
  have ex: "existingTuple s1 = Some (m_destTable s1 ! i)"
    using assms(2,3) by (simp add: existingTuple_def)
  {
    assume "a - b = 0 \<and> 0 < m_groupByColumnCount h"
    then show "handleTupleDelete_row exec h d s =
              (Inr (), s1\<lparr>m_destTable := take i (m_destTable s1) @ drop (Suc i) (m_destTable s1)\<rparr>)"
      using assms ex by (simp add: handleTupleDelete_row_def deleteTuple_def)
  next
    assume n: "\<not> (a - b = 0 \<and> 0 < m_groupByColumnCount h)"
    obtain r2 s2 where mg: "mergeTupleForDelete exec h d s1 = (r2, s2)" by (metis surj_pair)
    from mergeTupleForDelete_frame [OF mg]
    have f: "m_destTable s2 = m_destTable s1" "m_existingTuple s2 = m_existingTuple s1" by simp_all
    have up: "updateTupleWithSpecificIndexes s2 =
                (Inr (), s2\<lparr>m_destTable := (m_destTable s1)[i := m_updatedTuple s2]\<rparr>)"
      using f assms(2,3) by (simp add: updateTupleWithSpecificIndexes_def)
    have "handleTupleDelete_row exec h d s =
            (case (r2, s2) of (Inl e, s2) \<Rightarrow> (Inl e, s2)
             | (Inr _, s2) \<Rightarrow> updateTupleWithSpecificIndexes s2)"
      using assms(1,4,5) ex n mg by (auto simp: handleTupleDelete_row_def)
    then show "handleTupleDelete_row exec h d s =
              (case mergeTupleForDelete exec h d s1 of
                 (Inl e, s2) \<Rightarrow> (Inl e, s2)
               | (Inr _, s2) \<Rightarrow>
                   (Inr (), s2\<lparr>m_destTable := (m_destTable s1)[i := m_updatedTuple s2]\<rparr>))"
      using mg up by (cases r2) simp_all
  next
    let ?z = "\<lambda>ty. if ty = EXPRESSION_TYPE_AGGREGATE_COUNT
                       \<or> ty = EXPRESSION_TYPE_AGGREGATE_COUNT_STAR
                    then IntValue 0 else NullValue"
    assume z: "a - b = 0 \<and> m_groupByColumnCount h = 0 \<and>
          length (m_updatedTuple s1) = m_aggColumnCount h \<and>
          length (m_aggTypes h) = m_aggColumnCount h"
    then have ty: "length (m_aggTypes h) = m_aggColumnCount h" by simp
    have cp: "copyGroupByColumns 0 (existingTuple s1) 0 (m_updatedTuple s1)
                = (Inr (), m_updatedTuple s1)"
      by (simp add: copyGroupByColumns.simps)
    obtain u' where zr: "mergeDeleteZero h 0 (0 + 0) (m_updatedTuple s1) = (Inr (), u')"
      and l: "length u' = length (m_updatedTuple s1)"
      and v: "\<forall>k. 0 \<le> k \<and> k < m_aggColumnCount h \<longrightarrow> u' ! (0 + k) = ?z (m_aggTypes h ! k)"
      using mergeDeleteZero_ok [OF ty, of 0 "m_updatedTuple s1" 0] z by auto
    have "u' = map ?z (m_aggTypes h)"
    proof (rule nth_equalityI)
      show "length u' = length (map ?z (m_aggTypes h))" using l z by simp
    next
      fix k assume "k < length u'"
      then have k: "k < m_aggColumnCount h" using l z by simp
      with v have "u' ! k = ?z (m_aggTypes h ! k)" by simp
      also have "\<dots> = map ?z (m_aggTypes h) ! k" using k ty by simp
      finally show "u' ! k = map ?z (m_aggTypes h) ! k" .
    qed
    with zr have zr': "mergeDeleteZero h 0 0 (m_updatedTuple s1) = (Inr (), map ?z (m_aggTypes h))"
      by simp
    show "mergeTupleForDelete exec h d s1 =
              (Inr (), s1\<lparr>m_updatedTuple := map ?z (m_aggTypes h)\<rparr>)"
      using z cp zr' assms(4,5) ex by (simp add: mergeTupleForDelete_def)
  }
qed

theorem handleTupleDelete_row_deletes_or_merges_witness:
  "handleTupleDelete_row scenario_runner grouped_view
      [IntValue 2, IntValue 1, IntValue 3, IntValue 3, IntValue 3] grouped_state =
     (Inr (), grouped_state\<lparr>m_existingTuple := Some 1,
        m_destTable := [[IntValue 1, IntValue 2, IntValue 12, IntValue 5, IntValue 7]]\<rparr>) \<and>
   handleTupleDelete_row scenario_runner grouped_view
      [IntValue 1, IntValue 1, IntValue 5, IntValue 5, IntValue 5] grouped_state =
     (Inr (), grouped_state\<lparr>
        m_destTable := [[IntValue 1, IntValue 1, IntValue 7, IntValue 7, IntValue 7],
                        [IntValue 2, IntValue 1, IntValue 3, IntValue 3, IntValue 3]],
        m_updatedTuple := [IntValue 1, IntValue 1, IntValue 7, IntValue 7, IntValue 7],
        ec_executed := [\<lparr>ev_plan = 1, ev_params = [IntValue 1, IntValue 5, IntValue 300],
                         ev_delta = {}\<rparr>]\<rparr>) \<and>
   mergeTupleForDelete ungrouped_runner ungrouped_view [IntValue 1, IntValue 5, IntValue 5]
      (ungrouped_state\<lparr>m_existingTuple := Some 0\<rparr>) =
     (Inr (), ungrouped_state\<lparr>m_existingTuple := Some 0,
        m_updatedTuple := [IntValue 0, NullValue, NullValue]\<rparr>)"
proof -
  let ?d2 = "[IntValue 2, IntValue 1, IntValue 3, IntValue 3, IntValue 3]"
  let ?d1 = "[IntValue 1, IntValue 1, IntValue 5, IntValue 5, IntValue 5]"
  let ?d0 = "[IntValue 1, IntValue 5, IntValue 5]"
  let ?g1 = "grouped_state\<lparr>m_existingTuple := Some 1\<rparr>"
  let ?u0 = "ungrouped_state\<lparr>m_existingTuple := Some 0\<rparr>"
  have f2: "findExistingTuple grouped_view ?d2 grouped_state = (Inr True, ?g1)"
    and f1: "findExistingTuple grouped_view ?d1 grouped_state = (Inr True, grouped_state)"
    and f0: "findExistingTuple ungrouped_view ?d0 ungrouped_state = (Inr True, ?u0)"
    by (simp_all add: findExistingTuple_def grouped_view_def grouped_state_def
          ungrouped_view_def ungrouped_state_def)
  have A: "m_existingTuple ?g1 = Some 1" "1 < length (m_destTable ?g1)"
      "getNValue (Some (m_destTable ?g1 ! 1)) (m_countStarColumnIndex grouped_view) = Inr (IntValue 1)"
      "getNValue (Some ?d2) (m_countStarColumnIndex grouped_view) = Inr (IntValue 1)"
    by (simp_all add: getNValue_def grouped_view_def grouped_state_def)
  have B: "m_existingTuple grouped_state = Some 0" "0 < length (m_destTable grouped_state)"
      "getNValue (Some (m_destTable grouped_state ! 0)) (m_countStarColumnIndex grouped_view)
         = Inr (IntValue 2)"
      "getNValue (Some ?d1) (m_countStarColumnIndex grouped_view) = Inr (IntValue 1)"
    by (simp_all add: getNValue_def grouped_view_def grouped_state_def)
  have C: "m_existingTuple ?u0 = Some 0" "0 < length (m_destTable ?u0)"
      "getNValue (Some (m_destTable ?u0 ! 0)) (m_countStarColumnIndex ungrouped_view)
         = Inr (IntValue 1)"
      "getNValue (Some ?d0) (m_countStarColumnIndex ungrouped_view) = Inr (IntValue 1)"
    by (simp_all add: getNValue_def ungrouped_view_def ungrouped_state_def)
  have mg: "mergeTupleForDelete scenario_runner grouped_view ?d1 grouped_state =
     (Inr (), grouped_state\<lparr>
        m_updatedTuple := [IntValue 1, IntValue 1, IntValue 7, IntValue 7, IntValue 7],
        ec_executed := [\<lparr>ev_plan = 1, ev_params = [IntValue 1, IntValue 5, IntValue 300],
                         ev_delta = {}\<rparr>]\<rparr>)"
    by (simp add: view_eval_simps grouped_view_def grouped_state_def scenario_runner_def)
  from handleTupleDelete_row_deletes_or_merges [OF f2 A, of scenario_runner]
  have 1: "handleTupleDelete_row scenario_runner grouped_view ?d2 grouped_state =
     (Inr (), grouped_state\<lparr>m_existingTuple := Some 1,
        m_destTable := [[IntValue 1, IntValue 2, IntValue 12, IntValue 5, IntValue 7]]\<rparr>)"
    by (simp add: grouped_view_def grouped_state_def)
  from handleTupleDelete_row_deletes_or_merges [OF f1 B, of scenario_runner] mg
  have 2: "handleTupleDelete_row scenario_runner grouped_view ?d1 grouped_state =
     (Inr (), grouped_state\<lparr>
        m_destTable := [[IntValue 1, IntValue 1, IntValue 7, IntValue 7, IntValue 7],
                        [IntValue 2, IntValue 1, IntValue 3, IntValue 3, IntValue 3]],
        m_updatedTuple := [IntValue 1, IntValue 1, IntValue 7, IntValue 7, IntValue 7],
        ec_executed := [\<lparr>ev_plan = 1, ev_params = [IntValue 1, IntValue 5, IntValue 300],
                         ev_delta = {}\<rparr>]\<rparr>)"
    by (simp add: grouped_view_def grouped_state_def)
  from handleTupleDelete_row_deletes_or_merges [OF f0 C, of ungrouped_runner]
  have 3: "mergeTupleForDelete ungrouped_runner ungrouped_view ?d0 ?u0 =
     (Inr (), ungrouped_state\<lparr>m_existingTuple := Some 0,
        m_updatedTuple := [IntValue 0, NullValue, NullValue]\<rparr>)"
    by (simp add: ungrouped_view_def ungrouped_state_def)
  from 1 2 3 show ?thesis by blast
qed

subsection \<open>MIN and MAX columns in merge-for-delete\<close>

lemma compare_eq_0_iff: "dv \<noteq> NullValue \<Longrightarrow> compare e dv = 0 \<longleftrightarrow> e = dv"
  by (cases e; cases dv) (simp_all split: if_splits)

lemma minMaxIndex_Suc:
  "k < length tys \<Longrightarrow>
   minMaxIndex tys (Suc k) = (if is_minmax (tys ! k) then Suc (minMaxIndex tys k) else minMaxIndex tys k)"
  by (simp add: minMaxIndex_def take_Suc_conv_app_nth)

text \<open>One column of the second loop of merge-for-delete, when it succeeds.\<close>

lemma mergeDeleteValue_returns:
  assumes "mergeDeleteValue exec h ty e dv c mm s = (Inr nv, s1)"
  shows "(is_minmax ty \<and> dv \<noteq> NullValue \<and> e = dv \<longrightarrow>
            fallbackMinMaxColumn exec h c mm s = (Inr nv, s1)) \<and>
         (\<not> (is_minmax ty \<and> dv \<noteq> NullValue \<and> e = dv) \<longrightarrow>
            s1 = s \<and> (is_minmax ty \<longrightarrow> nv = e))"
proof (cases "dv = NullValue")
  case True
  with assms show ?thesis by (simp add: mergeDeleteValue_def isNull_def)
next
  case False
  then have c: "compare e dv = 0 \<longleftrightarrow> e = dv" by (rule compare_eq_0_iff)
  from assms False c show ?thesis
    by (cases ty) (auto simp: mergeDeleteValue_def isNull_def is_minmax_def split: if_splits)
qed

lemma mergeDeleteAggregates_runs:
  assumes ex: "length ex = m_groupByColumnCount h + m_aggColumnCount h"
    and d: "length d = m_groupByColumnCount h + m_aggColumnCount h"
    and ty: "length (m_aggTypes h) = m_aggColumnCount h"
  shows "existingTuple s = Some ex \<Longrightarrow> i \<le> m_aggColumnCount h \<Longrightarrow>
     mergeDeleteAggregates exec h d i (m_groupByColumnCount h + i)
        (minMaxIndex (m_aggTypes h) i) s = (Inr (), s') \<Longrightarrow>
     (\<exists>evs. ec_executed s' = ec_executed s @ evs \<and>
         list_all2 (fallback_run exec h (m_updatedTuple s')) evs
           (filter (needs_fallback h ex d) [i..<m_aggColumnCount h])) \<and>
     (\<forall>k. i \<le> k \<and> k < m_aggColumnCount h \<and> is_minmax (m_aggTypes h ! k) \<and>
          \<not> needs_fallback h ex d k \<longrightarrow>
          m_updatedTuple s' ! (m_groupByColumnCount h + k) = ex ! (m_groupByColumnCount h + k)) \<and>
     (\<forall>j < m_groupByColumnCount h + i. m_updatedTuple s' ! j = m_updatedTuple s ! j) \<and>
     length (m_updatedTuple s') = length (m_updatedTuple s)"
proof (induction "m_aggColumnCount h - i" arbitrary: i s)
  case 0
  then have "\<not> i < m_aggColumnCount h" by simp
  with "0.prems"(3) have "s' = s" by (subst (asm) mergeDeleteAggregates.simps) simp
  moreover have "[i..<m_aggColumnCount h] = []" using \<open>\<not> i < m_aggColumnCount h\<close> by simp
  ultimately show ?case using \<open>\<not> i < m_aggColumnCount h\<close> by auto
next
  case (Suc m)
  let ?gb = "m_groupByColumnCount h" and ?n = "m_aggColumnCount h" and ?tys = "m_aggTypes h"
  let ?c = "?gb + i" and ?mm = "minMaxIndex ?tys i"
  from Suc.hyps(2) have lt: "i < ?n" by simp
  have gv: "getNValue (existingTuple s) ?c = Inr (ex ! ?c)"
    using Suc.prems(1) ex lt by (simp add: getNValue_def)
  have gd: "getNValue (Some d) ?c = Inr (d ! ?c)"
    using d lt by (simp add: getNValue_def)
  have at: "at_index ?tys i = Inr (?tys ! i)"
    using ty lt by (simp add: at_index_def)
  obtain r1 s1 where mv: "mergeDeleteValue exec h (?tys ! i) (ex ! ?c) (d ! ?c) ?c ?mm s = (r1, s1)"
    by (metis surj_pair)
  note run = Suc.prems(3) [unfolded mergeDeleteAggregates.simps [of exec h d i ?c ?mm s]]
  from run lt gv gd at mv obtain nv where r1: "r1 = Inr nv"
    by (cases r1) simp_all
  from run lt gv gd at mv r1 obtain u1 where sv: "setNValue (m_updatedTuple s1) ?c nv = Inr u1"
    by (cases "setNValue (m_updatedTuple s1) ?c nv") simp_all
  let ?s2 = "s1\<lparr>m_updatedTuple := u1\<rparr>"
  have mm': "(if ?tys ! i = EXPRESSION_TYPE_AGGREGATE_MIN \<or> ?tys ! i = EXPRESSION_TYPE_AGGREGATE_MAX
              then Suc ?mm else ?mm) = minMaxIndex ?tys (Suc i)"
    using lt ty by (simp add: minMaxIndex_Suc is_minmax_def)
  have rec: "mergeDeleteAggregates exec h d (Suc i) (?gb + Suc i) (minMaxIndex ?tys (Suc i)) ?s2
               = (Inr (), s')"
    using run lt gv gd at mv r1 sv mm' by simp
  from mergeDeleteValue_frame [OF mv]
  have f1: "m_destTable s1 = m_destTable s" "m_existingTuple s1 = m_existingTuple s"
    "m_updatedTuple s1 = m_updatedTuple s" by simp_all
  have "existingTuple ?s2 = existingTuple s"
    using f1 by (simp add: existingTuple_def split: option.splits)
  then have ex2: "existingTuple ?s2 = Some ex"
    using Suc.prems(1) by simp
  from sv f1 have cl: "?c < length (m_updatedTuple s)" and u1: "u1 = (m_updatedTuple s)[?c := nv]"
    by (auto simp: setNValue_def split: if_splits)
  have "m = ?n - Suc i" using Suc.hyps(2) by simp
  moreover have "Suc i \<le> ?n" using lt by simp
  ultimately have ih:
    "(\<exists>evs. ec_executed s' = ec_executed ?s2 @ evs \<and>
         list_all2 (fallback_run exec h (m_updatedTuple s')) evs
           (filter (needs_fallback h ex d) [Suc i..<?n])) \<and>
     (\<forall>k. Suc i \<le> k \<and> k < ?n \<and> is_minmax (?tys ! k) \<and> \<not> needs_fallback h ex d k \<longrightarrow>
          m_updatedTuple s' ! (?gb + k) = ex ! (?gb + k)) \<and>
     (\<forall>j < ?gb + Suc i. m_updatedTuple s' ! j = m_updatedTuple ?s2 ! j) \<and>
     length (m_updatedTuple s') = length (m_updatedTuple ?s2)"
    using Suc.hyps(1) [of "Suc i" ?s2] ex2 rec by blast
  then obtain evs2 where e2: "ec_executed s' = ec_executed s1 @ evs2"
    and a2: "list_all2 (fallback_run exec h (m_updatedTuple s')) evs2
           (filter (needs_fallback h ex d) [Suc i..<?n])"
    by auto
  from ih have keep: "\<forall>j < ?gb + Suc i. m_updatedTuple s' ! j = u1 ! j"
    and len: "length (m_updatedTuple s') = length u1"
    and rest: "\<forall>k. Suc i \<le> k \<and> k < ?n \<and> is_minmax (?tys ! k) \<and> \<not> needs_fallback h ex d k \<longrightarrow>
          m_updatedTuple s' ! (?gb + k) = ex ! (?gb + k)"
    by simp_all
  have here: "m_updatedTuple s' ! ?c = nv"
    using keep u1 cl by simp
  have below: "\<forall>j < ?gb + i. m_updatedTuple s' ! j = m_updatedTuple s ! j"
    using keep u1 by simp
  have len': "length (m_updatedTuple s') = length (m_updatedTuple s)"
    using len u1 by simp
  have upt: "[i..<?n] = i # [Suc i..<?n]" using lt by (simp add: upt_conv_Cons)
  note mvr = mergeDeleteValue_returns [OF mv [unfolded r1]]
  show ?case
  proof (cases "needs_fallback h ex d i")
    case True
    then have cond: "is_minmax (?tys ! i) \<and> d ! ?c \<noteq> NullValue \<and> ex ! ?c = d ! ?c"
      by (simp add: needs_fallback_def)
    with mvr have fb: "fallbackMinMaxColumn exec h ?c ?mm s = (Inr nv, s1)" by simp
    from fb obtain b ps p v0 ev ps' where
      "fallbackBackup ?gb (existingTuple s) 0 (replicate (?gb + 1) NullValue) (ec_params s)
         = (Inr (), b, ps)"
      and "at_index ps ?gb = Inr p"
      and evi: "at_index (m_minMaxExecutorVectors h) ?mm = Inr ev"
      and s1: "s1 = s\<lparr>ec_params := ps',
               ec_executed := ec_executed s @
                 [\<lparr>ev_plan = ev, ev_params = ps[?gb := v0], ev_delta = delta_tables s\<rparr>]\<rparr>"
      and res: "\<exists>rows. exec ev (ps[?gb := v0]) (delta_tables s) = Some rows \<and>
           (case rows of [] \<Rightarrow> Inr NullValue
            | resultTuple # _ \<Rightarrow> getNValue (Some resultTuple) 0) = Inr nv"
      by (rule fallbackMinMaxColumn_returns)
    let ?e = "\<lparr>ev_plan = ev, ev_params = ps[?gb := v0], ev_delta = delta_tables s\<rparr>"
    from evi have "ev = m_minMaxExecutorVectors h ! ?mm"
      by (auto simp: at_index_def split: if_splits)
    with res here have fr: "fallback_run exec h (m_updatedTuple s') ?e i"
      by (simp add: fallback_run_def)
    have "ec_executed s' = ec_executed s @ (?e # evs2)" using e2 s1 by simp
    moreover have "list_all2 (fallback_run exec h (m_updatedTuple s')) (?e # evs2)
           (filter (needs_fallback h ex d) [i..<?n])"
      using fr a2 True upt by simp
    moreover have "\<forall>k. i \<le> k \<and> k < ?n \<and> is_minmax (?tys ! k) \<and> \<not> needs_fallback h ex d k \<longrightarrow>
          m_updatedTuple s' ! (?gb + k) = ex ! (?gb + k)"
    proof (intro allI impI)
      fix k assume k: "i \<le> k \<and> k < ?n \<and> is_minmax (?tys ! k) \<and> \<not> needs_fallback h ex d k"
      with True have "k \<noteq> i" by auto
      with k have "Suc i \<le> k" by simp
      with k rest show "m_updatedTuple s' ! (?gb + k) = ex ! (?gb + k)" by simp
    qed
    ultimately show ?thesis using below len' by blast
  next
    case False
    then have ncond: "\<not> (is_minmax (?tys ! i) \<and> d ! ?c \<noteq> NullValue \<and> ex ! ?c = d ! ?c)"
      by (simp add: needs_fallback_def)
    with mvr have s1: "s1 = s" and nv: "is_minmax (?tys ! i) \<longrightarrow> nv = ex ! ?c" by simp_all
    have "ec_executed s' = ec_executed s @ evs2" using e2 s1 by simp
    moreover have "list_all2 (fallback_run exec h (m_updatedTuple s')) evs2
           (filter (needs_fallback h ex d) [i..<?n])"
      using a2 False upt by simp
    moreover have "\<forall>k. i \<le> k \<and> k < ?n \<and> is_minmax (?tys ! k) \<and> \<not> needs_fallback h ex d k \<longrightarrow>
          m_updatedTuple s' ! (?gb + k) = ex ! (?gb + k)"
    proof (intro allI impI)
      fix k assume k: "i \<le> k \<and> k < ?n \<and> is_minmax (?tys ! k) \<and> \<not> needs_fallback h ex d k"
      show "m_updatedTuple s' ! (?gb + k) = ex ! (?gb + k)"
      proof (cases "k = i")
        case True
        with k nv here show ?thesis by simp
      next
        case False
        with k have "Suc i \<le> k" by simp
        with k rest show ?thesis by simp
      qed
    qed
    ultimately show ?thesis using below len' by blast
  qed
qed

lemma existingTuple_updated [simp]:
  "existingTuple (s\<lparr>m_updatedTuple := u\<rparr>) = existingTuple s"
  by (simp add: existingTuple_def split: option.splits)

text \<open>
  C5, for a new count other than zero. In merge-for-delete, when the new count
  (existing count-star minus delta count-star) is not zero and the merge returns: the
  plans run are, in
  column order, exactly the fallback queries of the MIN and MAX columns whose delta
  value is not null and equal to the existing value, and each such column gets what its
  query returned; every other MIN or MAX column keeps the existing value.
\<close>

theorem mergeTupleForDelete_fallback_when_equal:
  assumes "existingTuple s = Some ex"
    and "length ex = m_groupByColumnCount h + m_aggColumnCount h"
    and "length d = m_groupByColumnCount h + m_aggColumnCount h"
    and "length (m_aggTypes h) = m_aggColumnCount h"
    and "getNValue (Some ex) (m_countStarColumnIndex h) = Inr existingCount"
    and "getNValue (Some d) (m_countStarColumnIndex h) = Inr deltaCount"
    and "\<not> isZero (op_subtract existingCount deltaCount)"
    and "mergeTupleForDelete exec h d s = (Inr (), s')"
  shows "(\<exists>evs. ec_executed s' = ec_executed s @ evs \<and>
            list_all2 (fallback_run exec h (m_updatedTuple s')) evs
              (filter (needs_fallback h ex d) [0..<m_aggColumnCount h])) \<and>
         (\<forall>k < m_aggColumnCount h.
            is_minmax (m_aggTypes h ! k) \<and> \<not> needs_fallback h ex d k \<longrightarrow>
            m_updatedTuple s' ! (m_groupByColumnCount h + k) = ex ! (m_groupByColumnCount h + k))"
proof -
  let ?gb = "m_groupByColumnCount h"
  obtain r0 u where cp: "copyGroupByColumns ?gb (existingTuple s) 0 (m_updatedTuple s) = (r0, u)"
    by (metis surj_pair)
  note run = assms(8) [unfolded mergeTupleForDelete_def]
  from run cp have r0: "r0 = Inr ()" by (cases r0) simp_all
  let ?s0 = "s\<lparr>m_updatedTuple := u\<rparr>"
  from run cp r0 assms(1,5,6,7)
  have ag: "mergeDeleteAggregates exec h d 0 (?gb + 0) (minMaxIndex (m_aggTypes h) 0) ?s0 = (Inr (), s')"
    by (simp add: minMaxIndex_def)
  have ex0: "existingTuple ?s0 = Some ex"
    using assms(1) by simp
  from mergeDeleteAggregates_runs [OF assms(2,3,4) ex0 _ ag]
  show ?thesis by simp
qed

theorem mergeTupleForDelete_fallback_when_equal_witness:
  "mergeTupleForDelete scenario_runner grouped_view
      [IntValue 1, IntValue 1, IntValue 5, IntValue 5, IntValue 5] grouped_state =
     (Inr (), grouped_state\<lparr>
        m_updatedTuple := [IntValue 1, IntValue 1, IntValue 7, IntValue 7, IntValue 7],
        ec_executed := [\<lparr>ev_plan = 1, ev_params = [IntValue 1, IntValue 5, IntValue 300],
                         ev_delta = {}\<rparr>]\<rparr>) \<and>
   filter (needs_fallback grouped_view
            [IntValue 1, IntValue 2, IntValue 12, IntValue 5, IntValue 7]
            [IntValue 1, IntValue 1, IntValue 5, IntValue 5, IntValue 5])
      [0..<m_aggColumnCount grouped_view] = [2] \<and>
   fallback_run scenario_runner grouped_view
      [IntValue 1, IntValue 1, IntValue 7, IntValue 7, IntValue 7]
      \<lparr>ev_plan = 1, ev_params = [IntValue 1, IntValue 5, IntValue 300], ev_delta = {}\<rparr> 2"
proof -
  let ?ex = "[IntValue 1, IntValue 2, IntValue 12, IntValue 5, IntValue 7]"
  let ?d = "[IntValue 1, IntValue 1, IntValue 5, IntValue 5, IntValue 5]"
  let ?e = "\<lparr>ev_plan = 1, ev_params = [IntValue 1, IntValue 5, IntValue 300],
             ev_delta = ({} :: nat set)\<rparr>"
  let ?s' = "grouped_state\<lparr>
        m_updatedTuple := [IntValue 1, IntValue 1, IntValue 7, IntValue 7, IntValue 7],
        ec_executed := [?e]\<rparr>"
  have run: "mergeTupleForDelete scenario_runner grouped_view ?d grouped_state = (Inr (), ?s')"
    by (simp add: view_eval_simps grouped_view_def grouped_state_def scenario_runner_def)
  have a1: "existingTuple grouped_state = Some ?ex"
    by (simp add: existingTuple_def grouped_state_def)
  have a2: "length ?ex = m_groupByColumnCount grouped_view + m_aggColumnCount grouped_view"
    and a3: "length ?d = m_groupByColumnCount grouped_view + m_aggColumnCount grouped_view"
    and a4: "length (m_aggTypes grouped_view) = m_aggColumnCount grouped_view"
    and a5: "getNValue (Some ?ex) (m_countStarColumnIndex grouped_view) = Inr (IntValue 2)"
    and a6: "getNValue (Some ?d) (m_countStarColumnIndex grouped_view) = Inr (IntValue 1)"
    and a7: "\<not> isZero (op_subtract (IntValue 2) (IntValue 1))"
    by (simp_all add: grouped_view_def getNValue_def)
  have cols: "filter (needs_fallback grouped_view ?ex ?d) [0..<m_aggColumnCount grouped_view] = [2]"
    by (simp add: grouped_view_def needs_fallback_def is_minmax_def upt_rec)
  from mergeTupleForDelete_fallback_when_equal [OF a1 a2 a3 a4 a5 a6 a7 run] cols
  obtain evs where "ec_executed ?s' = ec_executed grouped_state @ evs"
    and "list_all2 (fallback_run scenario_runner grouped_view (m_updatedTuple ?s')) evs [2]"
    by auto
  then have "fallback_run scenario_runner grouped_view
      [IntValue 1, IntValue 1, IntValue 7, IntValue 7, IntValue 7] ?e 2"
    by (auto simp: grouped_state_def list_all2_Cons2)
  with run cols show ?thesis by simp
qed

text \<open>
  C5, read for every merge-for-delete, fails when the new count is zero: in the view
  without group-by columns, deleting the only source row gives a delta row whose MIN
  value equals the existing one, yet merge-for-delete runs no plan at all and sets the
  MIN column to NULL rather than leaving or recomputing it.
\<close>

theorem mergeTupleForDelete_minmax_counterexample:
  "needs_fallback ungrouped_view [IntValue 1, IntValue 5, IntValue 5]
      [IntValue 1, IntValue 5, IntValue 5] 2 \<and>
   existingTuple (ungrouped_state\<lparr>m_existingTuple := Some 0\<rparr>)
     = Some [IntValue 1, IntValue 5, IntValue 5] \<and>
   mergeTupleForDelete ungrouped_runner ungrouped_view [IntValue 1, IntValue 5, IntValue 5]
      (ungrouped_state\<lparr>m_existingTuple := Some 0\<rparr>) =
     (Inr (), ungrouped_state\<lparr>m_existingTuple := Some 0,
        m_updatedTuple := [IntValue 0, NullValue, NullValue]\<rparr>) \<and>
   ec_executed (ungrouped_state\<lparr>m_existingTuple := Some 0,
        m_updatedTuple := [IntValue 0, NullValue, NullValue]\<rparr>) = ec_executed ungrouped_state"
  by (simp add: view_eval_simps ungrouped_view_def ungrouped_state_def ungrouped_runner_def
        needs_fallback_def is_minmax_def)

subsection \<open>Views without group-by columns\<close>

lemma mergeTupleForInsert_frame:
  assumes "mergeTupleForInsert h d s = (r, s')"
  shows "m_destTable s' = m_destTable s \<and> m_existingTuple s' = m_existingTuple s"
  using assms
  by (auto simp: mergeTupleForInsert_def split: prod.splits sum.splits)

lemma updateTupleWithSpecificIndexes_not_fatal:
  "updateTupleWithSpecificIndexes s \<noteq> (Inl FatalException, y)"
  by (simp add: updateTupleWithSpecificIndexes_def split: option.splits)

lemma findExistingTuple_no_group_by:
  assumes "m_groupByColumnCount h = 0" and "length (m_destTable s) = 1"
  shows "findExistingTuple h d s = (Inr True, s\<lparr>m_existingTuple := Some 0\<rparr>)"
  using assms by (cases "m_destTable s") (simp_all add: findExistingTuple_def)

lemma handleTupleInsert_row_no_group_by:
  assumes "m_groupByColumnCount h = 0" and "length (m_destTable s) = 1"
  shows "handleTupleInsert_row h d s =
           (case mergeTupleForInsert h d (s\<lparr>m_existingTuple := Some 0\<rparr>) of
              (Inl e, s2) \<Rightarrow> (Inl e, s2)
            | (Inr _, s2) \<Rightarrow> updateTupleWithSpecificIndexes s2)"
  by (simp add: handleTupleInsert_row_def findExistingTuple_no_group_by [OF assms])

lemma handleTupleInsert_row_one_row:
  assumes "m_groupByColumnCount h = 0" and "length (m_destTable s) = 1"
    and "handleTupleInsert_row h d s = (r, s')"
  shows "length (m_destTable s') = 1"
proof -
  let ?s1 = "s\<lparr>m_existingTuple := Some 0\<rparr>"
  obtain r2 s2 where mg: "mergeTupleForInsert h d ?s1 = (r2, s2)" by (metis surj_pair)
  from mergeTupleForInsert_frame [OF mg] assms(2) have l2: "length (m_destTable s2) = 1" by simp
  note run = assms(3) [unfolded handleTupleInsert_row_no_group_by [OF assms(1,2)]]
  show ?thesis
  proof (cases r2)
    case (Inl e)
    with run mg have "s' = s2" by simp
    with l2 show ?thesis by simp
  next
    case (Inr x)
    with run mg have "updateTupleWithSpecificIndexes s2 = (r, s')" by simp
    from updateTupleWithSpecificIndexes_frame [OF this] l2 show ?thesis by simp
  qed
qed

lemma handleTupleInsert_rows_one_row:
  "m_groupByColumnCount h = 0 \<Longrightarrow> length (m_destTable s) = 1 \<Longrightarrow>
   handleTupleInsert_rows h ds s = (r, s') \<Longrightarrow> length (m_destTable s') = 1"
proof (induction ds arbitrary: s)
  case Nil
  then show ?case by simp
next
  case (Cons d ds)
  obtain r1 s1 where row: "handleTupleInsert_row h d s = (r1, s1)" by (metis surj_pair)
  from handleTupleInsert_row_one_row [OF Cons.prems(1,2) row]
  have l1: "length (m_destTable s1) = 1" .
  show ?case
  proof (cases r1)
    case (Inl e)
    with Cons.prems(3) row have "s' = s1" by simp
    with l1 show ?thesis by simp
  next
    case (Inr x)
    with Cons.prems(3) row have "handleTupleInsert_rows h ds s1 = (r, s')" by simp
    from Cons.IH [OF Cons.prems(1) l1 this] show ?thesis .
  qed
qed

lemma handleTupleDelete_row_one_row:
  assumes "m_groupByColumnCount h = 0" and "length (m_destTable s) = 1"
    and "handleTupleDelete_row exec h d s = (r, s')"
  shows "r \<noteq> Inl FatalException \<and> length (m_destTable s') = 1"
proof -
  let ?s1 = "s\<lparr>m_existingTuple := Some 0\<rparr>"
  note fe = findExistingTuple_no_group_by [OF assms(1,2), of d]
  note run = assms(3) [unfolded handleTupleDelete_row_def fe]
  have l1: "length (m_destTable ?s1) = 1" using assms(2) by simp
  show ?thesis
  proof (cases "getNValue (existingTuple ?s1) (m_countStarColumnIndex h)")
    case (Inl e)
    with run have "s' = ?s1" "r = Inl e" by simp_all
    with l1 Inl show ?thesis using getNValue_not_fatal by force
  next
    case (Inr existingCount)
    note ec = this
    show ?thesis
    proof (cases "getNValue (Some d) (m_countStarColumnIndex h)")
      case (Inl e)
      with run ec have "s' = ?s1" "r = Inl e" by simp_all
      with l1 Inl show ?thesis using getNValue_not_fatal by force
    next
      case (Inr deltaCount)
      note dc = this
      obtain r2 s2 where mg: "mergeTupleForDelete exec h d ?s1 = (r2, s2)" by (metis surj_pair)
      from mergeTupleForDelete_frame [OF mg] l1 have l2: "length (m_destTable s2) = 1" by simp
      show ?thesis
      proof (cases r2)
        case (Inl e)
        with run ec dc mg assms(1) have "s' = s2" "r = Inl e" by simp_all
        moreover have "e \<noteq> FatalException"
          using mg Inl mergeTupleForDelete_not_fatal by auto
        ultimately show ?thesis using l2 by simp
      next
        case (Inr x)
        with run ec dc mg assms(1) have up: "updateTupleWithSpecificIndexes s2 = (r, s')" by simp
        from updateTupleWithSpecificIndexes_frame [OF up] l2
        have "length (m_destTable s') = 1" by simp
        moreover have "r \<noteq> Inl FatalException"
          using up updateTupleWithSpecificIndexes_not_fatal by auto
        ultimately show ?thesis by simp
      qed
    qed
  qed
qed

lemma handleTupleDelete_rows_one_row:
  "m_groupByColumnCount h = 0 \<Longrightarrow> length (m_destTable s) = 1 \<Longrightarrow>
   handleTupleDelete_rows exec h ds s = (r, s') \<Longrightarrow>
   r \<noteq> Inl FatalException \<and> length (m_destTable s') = 1"
proof (induction ds arbitrary: s)
  case Nil
  then show ?case by auto
next
  case (Cons d ds)
  obtain r1 s1 where row: "handleTupleDelete_row exec h d s = (r1, s1)" by (metis surj_pair)
  from handleTupleDelete_row_one_row [OF Cons.prems(1,2) row]
  have nf: "r1 \<noteq> Inl FatalException" and l1: "length (m_destTable s1) = 1" by simp_all
  show ?case
  proof (cases r1)
    case (Inl e)
    with Cons.prems(3) row have "s' = s1" "r = r1" by simp_all
    with l1 nf show ?thesis by simp
  next
    case (Inr x)
    with Cons.prems(3) row have "handleTupleDelete_rows exec h ds s1 = (r, s')" by simp
    from Cons.IH [OF Cons.prems(1) l1 this] show ?thesis .
  qed
qed

text \<open>
  C8. For a view without group-by columns whose destination table holds exactly one
  row, \<^verbatim>\<open>findExistingTuple\<close> returns true for every delta tuple and the existing
  tuple is that row. So each delta row of the insert path takes the merge-and-update
  branch, not the direct insert, and the table still holds exactly one row when
  \<^verbatim>\<open>handleTupleInsert\<close> ends; \<^verbatim>\<open>handleTupleDelete\<close> never ends with the fatal
  exception of the not-found branch, and it too leaves exactly one row.
\<close>

theorem no_group_by_view_always_finds_its_row:
  assumes "m_groupByColumnCount h = 0" and "m_destTable s = [row]"
  shows "findExistingTuple h d s = (Inr True, s\<lparr>m_existingTuple := Some 0\<rparr>) \<and>
         existingTuple (s\<lparr>m_existingTuple := Some 0\<rparr>) = Some row \<and>
         handleTupleInsert_row h d s =
           (case mergeTupleForInsert h d (s\<lparr>m_existingTuple := Some 0\<rparr>) of
              (Inl e, s2) \<Rightarrow> (Inl e, s2)
            | (Inr _, s2) \<Rightarrow> updateTupleWithSpecificIndexes s2) \<and>
         (handleTupleInsert exec h sourceTable s = (r, s') \<longrightarrow> length (m_destTable s') = 1) \<and>
         (handleTupleDelete exec h sourceTable s = (r, s') \<longrightarrow>
            r \<noteq> Inl FatalException \<and> length (m_destTable s') = 1)"
proof -
  have one: "length (m_destTable s) = 1" using assms(2) by simp
  have a: "findExistingTuple h d s = (Inr True, s\<lparr>m_existingTuple := Some 0\<rparr>)"
    using assms(1) one by (rule findExistingTuple_no_group_by)
  have b: "existingTuple (s\<lparr>m_existingTuple := Some 0\<rparr>) = Some row"
    using assms(2) by (simp add: existingTuple_def)
  have c: "handleTupleInsert_row h d s =
           (case mergeTupleForInsert h d (s\<lparr>m_existingTuple := Some 0\<rparr>) of
              (Inl e, s2) \<Rightarrow> (Inl e, s2)
            | (Inr _, s2) \<Rightarrow> updateTupleWithSpecificIndexes s2)"
    using assms(1) one by (rule handleTupleInsert_row_no_group_by)
  have i: "length (m_destTable s') = 1" if run: "handleTupleInsert exec h sourceTable s = (r, s')"
  proof -
    let ?s0 = "enterDeltaMode sourceTable s"
    obtain r1 s1 where ex: "executeExecutors exec (m_createQueryExecutorVector h) ?s0 = (r1, s1)"
      by (metis surj_pair)
    from executeExecutors_frame [OF ex] one
    have l1: "length (m_destTable s1) = 1" by (simp add: enterDeltaMode_def)
    show ?thesis
    proof (cases r1)
      case (Inl e)
      with run ex have "s' = exitDeltaMode sourceTable s1" by (simp add: handleTupleInsert_def)
      with l1 show ?thesis by (simp add: exitDeltaMode_def)
    next
      case (Inr delta)
      obtain r2 s2 where rows: "handleTupleInsert_rows h delta s1 = (r2, s2)" by (metis surj_pair)
      from handleTupleInsert_rows_one_row [OF assms(1) l1 rows]
      have "length (m_destTable s2) = 1" .
      moreover from run ex Inr rows have "s' = exitDeltaMode sourceTable s2"
        by (simp add: handleTupleInsert_def)
      ultimately show ?thesis by (simp add: exitDeltaMode_def)
    qed
  qed
  have dl: "r \<noteq> Inl FatalException \<and> length (m_destTable s') = 1"
    if run: "handleTupleDelete exec h sourceTable s = (r, s')"
  proof -
    let ?s0 = "enterDeltaMode sourceTable s"
    obtain r1 s1 where ex: "executeExecutors exec (m_createQueryExecutorVector h) ?s0 = (r1, s1)"
      by (metis surj_pair)
    from executeExecutors_frame [OF ex] one
    have l1: "length (m_destTable s1) = 1" by (simp add: enterDeltaMode_def)
    show ?thesis
    proof (cases r1)
      case (Inl e)
      with run ex have "s' = s1" "r = Inl e" by (simp_all add: handleTupleDelete_def)
      moreover have "e \<noteq> FatalException" using ex Inl executeExecutors_not_fatal by auto
      ultimately show ?thesis using l1 by simp
    next
      case (Inr delta)
      with run ex
      have "handleTupleDelete_rows exec h delta (exitDeltaMode sourceTable s1) = (r, s')"
        by (simp add: handleTupleDelete_def)
      moreover have "length (m_destTable (exitDeltaMode sourceTable s1)) = 1"
        using l1 by (simp add: exitDeltaMode_def)
      ultimately show ?thesis using handleTupleDelete_rows_one_row [OF assms(1)] by blast
    qed
  qed
  from a b c i dl show ?thesis by blast
qed

lemma ungrouped_delete_example:
  "handleTupleDelete ungrouped_runner ungrouped_view 7 ungrouped_state =
     (Inr (),
      ungrouped_state\<lparr>m_destTable := [[IntValue 0, NullValue, NullValue]],
                      m_existingTuple := Some 0,
                      m_updatedTuple := [IntValue 0, NullValue, NullValue],
                      ec_executed :=
                        [\<lparr>ev_plan = 10, ev_params = [IntValue 100], ev_delta = {7}\<rparr>]\<rparr>)"
  by (simp add: view_eval_simps ungrouped_view_def ungrouped_state_def ungrouped_runner_def)

lemma ungrouped_insert_example:
  "handleTupleInsert ungrouped_runner ungrouped_view 7 ungrouped_state =
     (Inr (),
      ungrouped_state\<lparr>m_destTable := [[IntValue 2, IntValue 10, IntValue 5]],
                      m_existingTuple := Some 0,
                      m_updatedTuple := [IntValue 2, IntValue 10, IntValue 5],
                      ec_executed :=
                        [\<lparr>ev_plan = 10, ev_params = [IntValue 100], ev_delta = {7}\<rparr>]\<rparr>)"
  by (simp add: view_eval_simps ungrouped_view_def ungrouped_state_def ungrouped_runner_def)

theorem no_group_by_view_always_finds_its_row_witness:
  "findExistingTuple ungrouped_view [IntValue 1, IntValue 5, IntValue 5] ungrouped_state =
     (Inr True, ungrouped_state\<lparr>m_existingTuple := Some 0\<rparr>) \<and>
   existingTuple (ungrouped_state\<lparr>m_existingTuple := Some 0\<rparr>)
     = Some [IntValue 1, IntValue 5, IntValue 5] \<and>
   fst (handleTupleDelete ungrouped_runner ungrouped_view 7 ungrouped_state) = Inr () \<and>
   length (m_destTable (snd (handleTupleDelete ungrouped_runner ungrouped_view 7 ungrouped_state))) = 1 \<and>
   length (m_destTable (snd (handleTupleInsert ungrouped_runner ungrouped_view 7 ungrouped_state))) = 1"
proof -
  have g: "m_groupByColumnCount ungrouped_view = 0" by (simp add: ungrouped_view_def)
  have t: "m_destTable ungrouped_state = [[IntValue 1, IntValue 5, IntValue 5]]"
    by (simp add: ungrouped_state_def)
  note del = ungrouped_delete_example
  note ins = ungrouped_insert_example
  from no_group_by_view_always_finds_its_row [OF g t, of "[IntValue 1, IntValue 5, IntValue 5]"
      ungrouped_runner 7 "Inr ()" "snd (handleTupleDelete ungrouped_runner ungrouped_view 7 ungrouped_state)"]
    no_group_by_view_always_finds_its_row [OF g t, of "[IntValue 1, IntValue 5, IntValue 5]"
      ungrouped_runner 7 "Inr ()" "snd (handleTupleInsert ungrouped_runner ungrouped_view 7 ungrouped_state)"]
    del ins
  show ?thesis by simp
qed

subsection \<open>Dependency retrieval\<close>

lemma delivers_0 [simp]: "delivers 0 cs"
  by (induction cs rule: pending.induct) simp_all

lemma readDependencyData_done:
  "readDependencyData len len dta s = (len, dta, s)"
  by (subst readDependencyData.simps) simp

lemma readDependencyData_delivers:
  "inbound s = cs \<Longrightarrow> bytes \<le> len \<Longrightarrow> delivers (nat (len - bytes)) cs \<Longrightarrow>
   \<exists>s'. readDependencyData len bytes dta s
          = (len, dta @ take (nat (len - bytes)) (pending cs), s') \<and>
        pending (inbound s') = drop (nat (len - bytes)) (pending cs) \<and>
        outbound s' = outbound s \<and> writable s' = writable s"
proof (induction cs arbitrary: s bytes dta)
  case Nil
  then have "bytes = len" by simp
  with Nil show ?case by (simp add: readDependencyData_done)
next
  case (Cons c cs)
  show ?case
  proof (cases "bytes = len")
    case True
    with Cons.prems show ?thesis by (simp add: readDependencyData_done)
  next
    case False
    with Cons.prems(2) have lt: "bytes < len" by simp
    let ?n = "nat (len - bytes)"
    from lt have npos: "0 < ?n" by simp
    from Cons.prems(3) npos obtain bs where c: "c = Bytes bs" and ne: "bs \<noteq> []"
      and dl: "?n \<le> length bs \<or> delivers (?n - length bs) cs"
      by (cases c) auto
    show ?thesis
    proof (cases "length bs \<le> ?n")
      case True
      let ?s1 = "s\<lparr>inbound := cs\<rparr>"
      have rd: "sock_read ?n s = (int (length bs), bs, ?s1)"
        using Cons.prems(1) c True by (simp add: sock_read_def)
      have pos: "0 < int (length bs)" using ne by simp
      have step: "readDependencyData len bytes dta s
                    = readDependencyData len (bytes + int (length bs)) (dta @ bs) ?s1"
        using lt rd pos by (subst readDependencyData.simps) simp
      have le': "bytes + int (length bs) \<le> len" using True lt by simp
      have n': "nat (len - (bytes + int (length bs))) = ?n - length bs" using lt by simp
      have dl': "delivers (nat (len - (bytes + int (length bs)))) cs"
      proof (cases "?n \<le> length bs")
        case True
        with \<open>length bs \<le> ?n\<close> have "?n - length bs = 0" by simp
        with n' show ?thesis by simp
      next
        case False
        with dl n' show ?thesis by simp
      qed
      have "inbound ?s1 = cs" by simp
      from Cons.IH [OF this le' dl', of "dta @ bs"] obtain s' where
        r: "readDependencyData len (bytes + int (length bs)) (dta @ bs) ?s1
              = (len, (dta @ bs) @ take (?n - length bs) (pending cs), s')"
        and p: "pending (inbound s') = drop (?n - length bs) (pending cs)"
        and o: "outbound s' = outbound ?s1" "writable s' = writable ?s1"
        using n' by auto
      have "take ?n (pending (c # cs)) = bs @ take (?n - length bs) (pending cs)"
        using c True by simp
      moreover have "drop ?n (pending (c # cs)) = drop (?n - length bs) (pending cs)"
        using c True by simp
      ultimately show ?thesis using step r p o by simp
    next
      case False
      then have gt: "?n < length bs" by simp
      let ?s1 = "s\<lparr>inbound := Bytes (drop ?n bs) # cs\<rparr>"
      have rd: "sock_read ?n s = (int ?n, take ?n bs, ?s1)"
        using Cons.prems(1) c False by (simp add: sock_read_def)
      have fin: "bytes + int ?n = len" using lt by simp
      have step: "readDependencyData len bytes dta s
                    = readDependencyData len len (dta @ take ?n bs) ?s1"
        using lt rd npos fin by (subst readDependencyData.simps) simp
      have "take ?n (pending (c # cs)) = take ?n bs" using c gt by simp
      moreover have "pending (inbound ?s1) = drop ?n (pending (c # cs))" using c gt by simp
      ultimately show ?thesis using step by (simp add: readDependencyData_done)
    qed
  qed
qed

lemma readDependencyData_short:
  "inbound s = cs \<Longrightarrow> bytes \<le> len \<Longrightarrow> \<not> delivers (nat (len - bytes)) cs \<Longrightarrow>
   fst (readDependencyData len bytes dta s) \<noteq> len"
proof (induction cs arbitrary: s bytes dta)
  case Nil
  then have lt: "bytes < len" by (cases "bytes = len") auto
  have "sock_read (nat (len - bytes)) s = (0, [], s)"
    using Nil.prems(1) by (simp add: sock_read_def)
  with lt show ?case by (subst readDependencyData.simps) simp
next
  case (Cons c cs)
  from Cons.prems(2,3) have lt: "bytes < len" by (cases "bytes = len") auto
  let ?n = "nat (len - bytes)"
  from lt have npos: "0 < ?n" by simp
  show ?case
  proof (cases c)
    case ReadError
    then have "sock_read ?n s = (- 1, [], s\<lparr>inbound := cs\<rparr>)"
      using Cons.prems(1) by (simp add: sock_read_def)
    with lt show ?thesis by (subst readDependencyData.simps) simp
  next
    case (Bytes bs)
    note c = this
    show ?thesis
    proof (cases "bs = []")
      case True
      then have "sock_read ?n s = (0, [], s\<lparr>inbound := cs\<rparr>)"
        using Cons.prems(1) c by (simp add: sock_read_def)
      with lt show ?thesis by (subst readDependencyData.simps) simp
    next
      case False
      with Cons.prems(3) c npos have short: "length bs < ?n" and nd: "\<not> delivers (?n - length bs) cs"
        by auto
      let ?s1 = "s\<lparr>inbound := cs\<rparr>"
      have rd: "sock_read ?n s = (int (length bs), bs, ?s1)"
        using Cons.prems(1) c short by (simp add: sock_read_def)
      have pos: "0 < int (length bs)" using False by simp
      have step: "readDependencyData len bytes dta s
                    = readDependencyData len (bytes + int (length bs)) (dta @ bs) ?s1"
        using lt rd pos by (subst readDependencyData.simps) simp
      have le': "bytes + int (length bs) \<le> len" using short lt by simp
      have n': "nat (len - (bytes + int (length bs))) = ?n - length bs" using lt by simp
      have "inbound ?s1 = cs" by simp
      from Cons.IH [OF this le', of "dta @ bs"] nd n' step show ?thesis by simp
    qed
  qed
qed

text \<open>
  The protocol when the four bytes of the length arrive in one read. After the request
  has been written and the host's status byte read: \<open>DependencyNotFound\<close> makes
  \<^verbatim>\<open>retrieveDependency\<close> return null with the socket as it is after that one byte;
  a status byte that is neither \<open>DependencyNotFound\<close> nor \<open>DependencyFound\<close>
  ends the process; with \<open>DependencyFound\<close> and a non-negative length \<open>n\<close>
  obtained by one read of four bytes, the call returns exactly the next \<open>n\<close> bytes of
  the stream when the host delivers them, in however many pieces, leaving what follows
  unread, and ends the process when the host does not.
\<close>

lemma retrieveDependency_length_in_one_read:
  assumes "sock_write (kErrorCode_RetrieveDependency # htonl_bytes dependencyId) s = (5, s1)"
    and "sock_read 1 s1 = (1, [responseCode], s2)"
  shows "(responseCode = kErrorCode_DependencyNotFound \<longrightarrow>
            retrieveDependency dependencyId s = (Inr (None, 0), s2)) \<and>
         (responseCode \<noteq> kErrorCode_DependencyNotFound \<and>
          responseCode \<noteq> kErrorCode_DependencyFound \<longrightarrow>
            retrieveDependency dependencyId s = (Inl ProcessExit, s2)) \<and>
         (responseCode = kErrorCode_DependencyFound \<and>
          sock_read 4 s2 = (4, lengthBytes, s3) \<and>
          0 \<le> sint (ntohl_bytes lengthBytes) \<and> n = nat (sint (ntohl_bytes lengthBytes)) \<longrightarrow>
            (delivers n (inbound s3) \<longrightarrow>
               (\<exists>s4. retrieveDependency dependencyId s
                        = (Inr (Some (take n (pending (inbound s3))), n), s4) \<and>
                     pending (inbound s4) = drop n (pending (inbound s3)))) \<and>
            (\<not> delivers n (inbound s3) \<longrightarrow>
               fst (retrieveDependency dependencyId s) = Inl ProcessExit))"
proof (intro conjI impI)
  assume "responseCode = kErrorCode_DependencyNotFound"
  with assms show "retrieveDependency dependencyId s = (Inr (None, 0), s2)"
    by (simp add: retrieveDependency_def)
next
  assume "responseCode \<noteq> kErrorCode_DependencyNotFound \<and>
          responseCode \<noteq> kErrorCode_DependencyFound"
  with assms show "retrieveDependency dependencyId s = (Inl ProcessExit, s2)"
    by (auto simp: retrieveDependency_def)
next
  assume f: "responseCode = kErrorCode_DependencyFound \<and>
          sock_read 4 s2 = (4, lengthBytes, s3) \<and>
          0 \<le> sint (ntohl_bytes lengthBytes) \<and> n = nat (sint (ntohl_bytes lengthBytes))"
  let ?len = "sint (ntohl_bytes lengthBytes)"
  have nf: "kErrorCode_DependencyNotFound \<noteq> kErrorCode_DependencyFound"
    by (simp add: kErrorCode_DependencyNotFound_def kErrorCode_DependencyFound_def)
  have unfold: "retrieveDependency dependencyId s =
      (case readDependencyData ?len 0 [] s3 of
         (bytes, dependencyData, s4) \<Rightarrow>
           if bytes \<noteq> ?len then (Inl ProcessExit, s4)
           else (Inr (Some dependencyData, nat ?len), s4))"
    using assms f nf by (simp add: retrieveDependency_def)
  have n: "nat (?len - 0) = n" using f by simp
  {
    assume "delivers n (inbound s3)"
    with n have "delivers (nat (?len - 0)) (inbound s3)" by simp
    from readDependencyData_delivers [OF refl _ this, of "[]"] f n
    obtain s4 where
      r: "readDependencyData ?len 0 [] s3 = (?len, take n (pending (inbound s3)), s4)"
      and p: "pending (inbound s4) = drop n (pending (inbound s3))"
      by auto
    from unfold r f have "retrieveDependency dependencyId s
                        = (Inr (Some (take n (pending (inbound s3))), n), s4)"
      by simp
    with p show "\<exists>s4. retrieveDependency dependencyId s
                        = (Inr (Some (take n (pending (inbound s3))), n), s4) \<and>
                     pending (inbound s4) = drop n (pending (inbound s3))"
      by blast
  next
    assume "\<not> delivers n (inbound s3)"
    with n have "\<not> delivers (nat (?len - 0)) (inbound s3)" by simp
    from readDependencyData_short [OF refl _ this, of "[]"] f
    have "fst (readDependencyData ?len 0 [] s3) \<noteq> ?len" by simp
    with unfold show "fst (retrieveDependency dependencyId s) = Inl ProcessExit"
      by (simp split: prod.splits)
  }
qed

lemma retrieveDependency_found_example:
  "retrieveDependency 7 host_found =
     (Inr (Some [10, 20, 30], 3),
      \<lparr>inbound = [Bytes [99]], outbound = [5, 0, 0, 0, 7], writable = True\<rparr>)"
  by (simp add: retrieveDependency_def host_found_def sock_write_def sock_read_def
        htonl_bytes_def kErrorCode_RetrieveDependency_def kErrorCode_DependencyNotFound_def
        kErrorCode_DependencyFound_def readDependencyData.simps)

lemma retrieveDependency_not_found_example:
  "retrieveDependency 7 host_not_found =
     (Inr (None, 0),
      \<lparr>inbound = [Bytes [99]], outbound = [5, 0, 0, 0, 7], writable = True\<rparr>)"
  by (simp add: retrieveDependency_def host_not_found_def sock_write_def sock_read_def
        htonl_bytes_def kErrorCode_RetrieveDependency_def kErrorCode_DependencyNotFound_def
        kErrorCode_DependencyFound_def readDependencyData.simps)

lemma retrieveDependency_length_in_one_read_example:
  "retrieveDependency 7 host_not_found =
     (Inr (None, 0), \<lparr>inbound = [Bytes [99]], outbound = [5, 0, 0, 0, 7], writable = True\<rparr>) \<and>
   retrieveDependency 7 host_confused =
     (Inl ProcessExit, \<lparr>inbound = [Bytes [99]], outbound = [5, 0, 0, 0, 7], writable = True\<rparr>) \<and>
   (\<exists>s4. retrieveDependency 7 host_found = (Inr (Some [10, 20, 30], 3), s4) \<and>
         pending (inbound s4) = [99])"
proof -
  let ?out = "[5, 0, 0, 0, 7] :: 8 word list"
  let ?msg = "kErrorCode_RetrieveDependency # htonl_bytes 7"
  have w1: "sock_write ?msg host_not_found = (5, host_not_found\<lparr>outbound := ?out\<rparr>)"
    and w2: "sock_write ?msg host_confused = (5, host_confused\<lparr>outbound := ?out\<rparr>)"
    and w3: "sock_write ?msg host_found = (5, host_found\<lparr>outbound := ?out\<rparr>)"
    by (simp_all add: sock_write_def htonl_bytes_def kErrorCode_RetrieveDependency_def
          host_not_found_def host_confused_def host_found_def)
  let ?rest = "\<lparr>inbound = [Bytes [99]], outbound = ?out, writable = True\<rparr>"
  have r1: "sock_read 1 (host_not_found\<lparr>outbound := ?out\<rparr>) = (1, [3], ?rest)"
    and r2: "sock_read 1 (host_confused\<lparr>outbound := ?out\<rparr>) = (1, [2], ?rest)"
    by (simp_all add: sock_read_def host_not_found_def host_confused_def)
  let ?f2 = "\<lparr>inbound = [Bytes [0, 0, 0, 3], Bytes [10, 20], Bytes [30, 99]],
              outbound = ?out, writable = True\<rparr>"
  let ?f3 = "\<lparr>inbound = [Bytes [10, 20], Bytes [30, 99]], outbound = ?out, writable = True\<rparr>"
  have r3: "sock_read 1 (host_found\<lparr>outbound := ?out\<rparr>) = (1, [4], ?f2)"
    by (simp add: sock_read_def host_found_def)
  have found: "(4::8 word) = kErrorCode_DependencyFound \<and>
          sock_read 4 ?f2 = (4, [0, 0, 0, 3], ?f3) \<and>
          0 \<le> sint (ntohl_bytes [0, 0, 0, 3]) \<and> (3::nat) = nat (sint (ntohl_bytes [0, 0, 0, 3]))"
    by (simp add: sock_read_def kErrorCode_DependencyFound_def)
  have dl: "delivers 3 (inbound ?f3)" by simp
  have nf: "(3::8 word) = kErrorCode_DependencyNotFound"
    by (simp add: kErrorCode_DependencyNotFound_def)
  have other: "(2::8 word) \<noteq> kErrorCode_DependencyNotFound \<and> (2::8 word) \<noteq> kErrorCode_DependencyFound"
    by (simp add: kErrorCode_DependencyNotFound_def kErrorCode_DependencyFound_def)
  have a: "retrieveDependency 7 host_not_found = (Inr (None, 0), ?rest)"
    using retrieveDependency_length_in_one_read [OF w1 r1, THEN conjunct1] nf by blast
  have b: "retrieveDependency 7 host_confused = (Inl ProcessExit, ?rest)"
    using retrieveDependency_length_in_one_read [OF w2 r2, THEN conjunct2, THEN conjunct1] other by blast
  have "\<exists>s4. retrieveDependency 7 host_found
                 = (Inr (Some (take 3 (pending (inbound ?f3))), 3), s4) \<and>
              pending (inbound s4) = drop 3 (pending (inbound ?f3))"
    using retrieveDependency_length_in_one_read [OF w3 r3, THEN conjunct2, THEN conjunct2,
            of "[0, 0, 0, 3]" ?f3 3] found dl
    by blast
  then have c: "\<exists>s4. retrieveDependency 7 host_found = (Inr (Some [10, 20, 30], 3), s4) \<and>
         pending (inbound s4) = [99]"
    by simp
  from a b c show ?thesis by blast
qed

text \<open>
  C9. With the status byte \<open>DependencyFound\<close> the call is to read the length and
  then that many bytes, and return them. The payload is read by a loop that accumulates
  short reads, but the length is read by a single \<^verbatim>\<open>read\<close> of four bytes and the
  process exits when that read returns fewer: of two hosts that send the same well-formed
  reply, byte for byte, the one whose length bytes arrive in one piece has its three
  payload bytes returned, and the one whose length bytes arrive in two pieces ends the
  process, with the rest of the length and the payload left unread.
\<close>

theorem retrieveDependency_split_length_exits:
  "pending (inbound host_found_split_length) = pending (inbound host_found) \<and>
   pending (inbound host_found) = [4, 0, 0, 0, 3, 10, 20, 30, 99] \<and>
   retrieveDependency 7 host_found =
     (Inr (Some [10, 20, 30], 3),
      \<lparr>inbound = [Bytes [99]], outbound = [5, 0, 0, 0, 7], writable = True\<rparr>) \<and>
   retrieveDependency 7 host_found_split_length =
     (Inl ProcessExit,
      \<lparr>inbound = [Bytes [0, 3], Bytes [10, 20], Bytes [30, 99]],
       outbound = [5, 0, 0, 0, 7], writable = True\<rparr>)"
  by (simp add: retrieveDependency_def host_found_def host_found_split_length_def
        sock_write_def sock_read_def htonl_bytes_def kErrorCode_RetrieveDependency_def
        kErrorCode_DependencyNotFound_def kErrorCode_DependencyFound_def
        readDependencyData.simps)

subsection \<open>Installing a handler\<close>

lemma dropSourceTable_result:
  assumes "heap_handlers st this = Some (ViewHandler h)"
    and "m_sourceTables h = (t0, i0) # rest"
    and "dropSourceTable vp this st = Inr st1"
  shows "\<exists>tb target. heap_tables st t0 = Some tb \<and> registered_as vp this h tb = Some target \<and>
           target \<in> set (m_viewHandlers tb) \<and>
           st1 = st\<lparr>heap_tables := (heap_tables st)
                      (t0 \<mapsto> tb\<lparr>m_viewHandlers := remove1 target (m_viewHandlers tb)\<rparr>),
                    heap_handlers := (heap_handlers st)
                      (this \<mapsto> ViewHandler (h\<lparr>m_sourceTables := rest\<rparr>)),
                    heap_log := heap_log st @ [Ev_dropViewHandler t0 target]\<rparr>"
proof -
  from assms obtain tb where tb: "heap_tables st t0 = Some tb"
    by (cases "heap_tables st t0") (simp_all add: dropSourceTable_def)
  let ?drop = "if vp = isCatalogTableReplicated tb
               then (if vp then dropViewHandler t0 (m_replicatedWrapper h) st else Inl AssertionFailed)
               else dropViewHandler t0 (Some this) st"
  from assms tb obtain st0 where d: "?drop = Inr st0"
    and st1: "st1 = st0\<lparr>heap_handlers := (heap_handlers st0)
                      (this \<mapsto> ViewHandler (h\<lparr>m_sourceTables := rest\<rparr>))\<rparr>"
    by (cases ?drop) (simp_all add: dropSourceTable_def)
  from d obtain target where r: "registered_as vp this h tb = Some target"
    and dv: "dropViewHandler t0 (Some target) st = Inr st0"
    by (cases "m_replicatedWrapper h")
       (auto simp: registered_as_def dropViewHandler_def tb split: if_splits)
  from dv tb have "target \<in> set (m_viewHandlers tb)"
    and "st0 = st\<lparr>heap_tables := (heap_tables st)
                      (t0 \<mapsto> tb\<lparr>m_viewHandlers := remove1 target (m_viewHandlers tb)\<rparr>),
                    heap_log := heap_log st @ [Ev_dropViewHandler t0 target]\<rparr>"
    by (auto simp: dropViewHandler_def split: if_splits)
  with tb r st1 show ?thesis by simp
qed

lemma registered_as_sourceTables [simp]:
  "registered_as vp this (h\<lparr>m_sourceTables := xs\<rparr>) tb = registered_as vp this h tb"
  by (simp add: registered_as_def)

lemma dropAllSourceTables_result:
  "heap_handlers st this = Some (ViewHandler h) \<Longrightarrow> m_sourceTables h = srcs \<Longrightarrow> srcs \<noteq> [] \<Longrightarrow>
   distinct (map fst srcs) \<Longrightarrow> dropAllSourceTables vp this st = Inr st1 \<Longrightarrow>
   heap_handlers st1 = (heap_handlers st)(this \<mapsto> ViewHandler (h\<lparr>m_sourceTables := []\<rparr>)) \<and>
   (\<forall>t. t \<notin> fst ` set srcs \<longrightarrow> heap_tables st1 t = heap_tables st t) \<and>
   (\<forall>t \<in> fst ` set srcs. \<exists>tb target.
       heap_tables st t = Some tb \<and> registered_as vp this h tb = Some target \<and>
       target \<in> set (m_viewHandlers tb) \<and>
       heap_tables st1 t = Some (tb\<lparr>m_viewHandlers := remove1 target (m_viewHandlers tb)\<rparr>))"
proof (induction srcs arbitrary: st h)
  case Nil
  then show ?case by simp
next
  case (Cons p rest)
  obtain t0 i0 where p: "p = (t0, i0)" by (cases p)
  note run = Cons.prems(5) [unfolded dropAllSourceTables.simps [of vp this st]]
  from run obtain st' where ds: "dropSourceTable vp this st = Inr st'"
    by (cases "dropSourceTable vp this st") simp_all
  from dropSourceTable_result [OF Cons.prems(1) _ ds, of t0 i0 rest] Cons.prems(2) p
  obtain tb0 target0 where tb0: "heap_tables st t0 = Some tb0"
    and r0: "registered_as vp this h tb0 = Some target0"
    and in0: "target0 \<in> set (m_viewHandlers tb0)"
    and st': "st' = st\<lparr>heap_tables := (heap_tables st)
                      (t0 \<mapsto> tb0\<lparr>m_viewHandlers := remove1 target0 (m_viewHandlers tb0)\<rparr>),
                    heap_handlers := (heap_handlers st)
                      (this \<mapsto> ViewHandler (h\<lparr>m_sourceTables := rest\<rparr>)),
                    heap_log := heap_log st @ [Ev_dropViewHandler t0 target0]\<rparr>"
    by auto
  let ?h' = "h\<lparr>m_sourceTables := rest\<rparr>"
  have h': "heap_handlers st' this = Some (ViewHandler ?h')" using st' by simp
  have left: "sourceTables_of this st' = rest" using h' by (simp add: sourceTables_of_def)
  have t0_new: "t0 \<notin> fst ` set rest" using Cons.prems(4) p by simp
  show ?case
  proof (cases "rest = []")
    case True
    with run ds left have "st1 = st'" by simp
    with st' True p tb0 r0 in0 show ?thesis by simp
  next
    case False
    with run ds left have rec: "dropAllSourceTables vp this st' = Inr st1" by simp
    have dist: "distinct (map fst rest)" using Cons.prems(4) by simp
    have ms: "m_sourceTables ?h' = rest" by simp
    from Cons.IH [OF h' ms False dist rec]
    have hs: "heap_handlers st1 = (heap_handlers st')(this \<mapsto> ViewHandler (?h'\<lparr>m_sourceTables := []\<rparr>))"
      and same: "\<forall>t. t \<notin> fst ` set rest \<longrightarrow> heap_tables st1 t = heap_tables st' t"
      and dropped: "\<forall>t \<in> fst ` set rest. \<exists>tb target.
         heap_tables st' t = Some tb \<and> registered_as vp this ?h' tb = Some target \<and>
         target \<in> set (m_viewHandlers tb) \<and>
         heap_tables st1 t = Some (tb\<lparr>m_viewHandlers := remove1 target (m_viewHandlers tb)\<rparr>)"
      by blast+
    have A: "heap_handlers st1 = (heap_handlers st)(this \<mapsto> ViewHandler (h\<lparr>m_sourceTables := []\<rparr>))"
      using hs st' by simp
    have B: "\<forall>t. t \<notin> fst ` set (p # rest) \<longrightarrow> heap_tables st1 t = heap_tables st t"
      using same st' p by simp
    have C: "\<forall>t \<in> fst ` set (p # rest). \<exists>tb target.
       heap_tables st t = Some tb \<and> registered_as vp this h tb = Some target \<and>
       target \<in> set (m_viewHandlers tb) \<and>
       heap_tables st1 t = Some (tb\<lparr>m_viewHandlers := remove1 target (m_viewHandlers tb)\<rparr>)"
    proof
      fix t assume t: "t \<in> fst ` set (p # rest)"
      show "\<exists>tb target.
         heap_tables st t = Some tb \<and> registered_as vp this h tb = Some target \<and>
         target \<in> set (m_viewHandlers tb) \<and>
         heap_tables st1 t = Some (tb\<lparr>m_viewHandlers := remove1 target (m_viewHandlers tb)\<rparr>)"
      proof (cases "t = t0")
        case True
        with same t0_new st' have "heap_tables st1 t0
            = Some (tb0\<lparr>m_viewHandlers := remove1 target0 (m_viewHandlers tb0)\<rparr>)" by simp
        with True tb0 r0 in0 show ?thesis by blast
      next
        case False
        with t p have tr: "t \<in> fst ` set rest" by auto
        with dropped obtain tb target where
          x: "heap_tables st' t = Some tb" "registered_as vp this ?h' tb = Some target"
             "target \<in> set (m_viewHandlers tb)"
             "heap_tables st1 t = Some (tb\<lparr>m_viewHandlers := remove1 target (m_viewHandlers tb)\<rparr>)"
          by blast
        from x(1) False st' have "heap_tables st t = Some tb" by simp
        with x show ?thesis by auto
      qed
    qed
    from A B C show ?thesis by blast
  qed
qed

lemma delete_replicatedWrapper_result:
  assumes "delete_replicatedWrapper p st = Inr st1"
  shows "heap_tables st1 = heap_tables st \<and>
         (\<forall>w. p = Some w \<longrightarrow> heap_handlers st1 w = None)"
  using assms
  by (auto simp: delete_replicatedWrapper_def free_handler_def
           split: option.splits handler_object.splits)

lemma delete_handler_result:
  assumes old: "heap_handlers st old = Some (ViewHandler oh)"
    and dist: "distinct (map fst (m_sourceTables oh))"
    and run: "delete_handler (Some old) st = Inr st1"
  shows "heap_handlers st1 old = None \<and>
         (\<forall>t. t \<notin> fst ` set (m_sourceTables oh) \<longrightarrow> heap_tables st1 t = heap_tables st t) \<and>
         (m_sourceTables oh \<noteq> [] \<longrightarrow>
            (\<exists>odt. heap_tables st (m_destTablePtr oh) = Some odt \<and>
               (\<forall>t \<in> fst ` set (m_sourceTables oh). \<exists>tb target.
                  heap_tables st t = Some tb \<and>
                  registered_as (\<not> isCatalogTableReplicated odt) old oh tb = Some target \<and>
                  target \<in> set (m_viewHandlers tb) \<and>
                  heap_tables st1 t
                    = Some (tb\<lparr>m_viewHandlers := remove1 target (m_viewHandlers tb)\<rparr>))))"
proof (cases "m_sourceTables oh = []")
  case True
  with old run have "st1 = free_handler old st" by (simp add: delete_handler_def)
  with True show ?thesis by (simp add: free_handler_def)
next
  case False
  with old run obtain odt where odt: "heap_tables st (m_destTablePtr oh) = Some odt"
    by (cases "heap_tables st (m_destTablePtr oh)") (simp_all add: delete_handler_def)
  let ?vp = "\<not> isCatalogTableReplicated odt"
  from old run False odt obtain sta where da: "dropAllSourceTables ?vp old st = Inr sta"
    by (cases "dropAllSourceTables ?vp old st") (simp_all add: delete_handler_def)
  from old run False odt da obtain stb where
    dw: "delete_replicatedWrapper (m_replicatedWrapper oh) sta = Inr stb"
    by (cases "delete_replicatedWrapper (m_replicatedWrapper oh) sta")
       (simp_all add: delete_handler_def)
  from old run False odt da dw have st1: "st1 = free_handler old stb"
    by (simp add: delete_handler_def)
  from delete_replicatedWrapper_result [OF dw] st1
  have tabs: "heap_tables st1 = heap_tables sta" by (simp add: free_handler_def)
  from dropAllSourceTables_result [OF old refl False dist da]
  have same: "\<forall>t. t \<notin> fst ` set (m_sourceTables oh) \<longrightarrow> heap_tables sta t = heap_tables st t"
    and dropped: "\<forall>t \<in> fst ` set (m_sourceTables oh). \<exists>tb target.
       heap_tables st t = Some tb \<and> registered_as ?vp old oh tb = Some target \<and>
       target \<in> set (m_viewHandlers tb) \<and>
       heap_tables sta t = Some (tb\<lparr>m_viewHandlers := remove1 target (m_viewHandlers tb)\<rparr>)"
    by blast+
  have "heap_handlers st1 old = None" using st1 by (simp add: free_handler_def)
  with same dropped tabs odt show ?thesis by auto
qed

lemma addViewHandler_mvHandler:
  assumes "addViewHandler t v st = Inr st'" and "heap_tables st x = Some tb"
  shows "\<exists>tb'. heap_tables st' x = Some tb' \<and> m_mvHandler tb' = m_mvHandler tb"
  using assms by (auto simp: addViewHandler_def split: option.splits)

lemma addSourceTable_mvHandler:
  assumes run: "addSourceTable vp t i this w pid st = Inr st'" and x: "heap_tables st x = Some tb"
  shows "\<exists>tb'. heap_tables st' x = Some tb' \<and> m_mvHandler tb' = m_mvHandler tb"
proof -
  from run obtain h where h: "heap_handlers st this = Some (ViewHandler h)"
    by (auto simp: addSourceTable_def split: option.splits handler_object.splits)
  from run h obtain tbs where tbs: "heap_tables st t = Some tbs"
    by (cases "heap_tables st t") (simp_all add: addSourceTable_def)
  let ?reg = "if vp = isCatalogTableReplicated tbs then
                (if \<not> vp then Inl AssertionFailed
                 else
                   (case m_replicatedWrapper h of
                      None \<Rightarrow>
                        (case addViewHandler t w
                                (st\<lparr>heap_handlers := (heap_handlers st)
                                     (w \<mapsto> ReplicatedViewHandler this pid)\<rparr>) of
                           Inl e \<Rightarrow> Inl e
                         | Inr st1 \<Rightarrow> Inr (st1, h\<lparr>m_replicatedWrapper := Some w\<rparr>))
                    | Some w' \<Rightarrow>
                        (case addViewHandler t w' st of
                           Inl e \<Rightarrow> Inl e
                         | Inr st1 \<Rightarrow> Inr (st1, h))))
              else
                (case addViewHandler t this st of
                   Inl e \<Rightarrow> Inl e
                 | Inr st1 \<Rightarrow> Inr (st1, h))"
  from run h tbs obtain st1 h1 where reg: "?reg = Inr (st1, h1)"
    by (cases ?reg) (auto simp: addSourceTable_def)
  have "\<exists>tb1. heap_tables st1 x = Some tb1 \<and> m_mvHandler tb1 = m_mvHandler tb"
  proof -
    from reg obtain v st0 where av: "addViewHandler t v st0 = Inr st1"
      and st0: "heap_tables st0 = heap_tables st"
      by (auto split: if_splits option.splits sum.splits)
    from st0 x have "heap_tables st0 x = Some tb" by simp
    from addViewHandler_mvHandler [OF av this] show ?thesis .
  qed
  moreover from run h tbs reg have "heap_tables st' = heap_tables st1"
    by (auto simp: addSourceTable_def split: prod.splits if_splits)
  ultimately show ?thesis by simp
qed

lemma addSourceTables_mvHandler:
  "addSourceTables vp srcs this w pid st = Inr st' \<Longrightarrow> heap_tables st x = Some tb \<Longrightarrow>
   \<exists>tb'. heap_tables st' x = Some tb' \<and> m_mvHandler tb' = m_mvHandler tb"
proof (induction srcs arbitrary: st tb)
  case Nil
  then show ?case by simp
next
  case (Cons p srcs)
  obtain t i where p: "p = (t, i)" by (cases p)
  from Cons.prems(1) p obtain st1 where a: "addSourceTable vp t i this w pid st = Inr st1"
    and r: "addSourceTables vp srcs this w pid st1 = Inr st'"
    by (cases "addSourceTable vp t i this w pid st") simp_all
  from addSourceTable_mvHandler [OF a Cons.prems(2)] obtain tb1 where
    "heap_tables st1 x = Some tb1" "m_mvHandler tb1 = m_mvHandler tb" by blast
  with Cons.IH [OF r] show ?case by fastforce
qed

lemma dropAllSourceTables_log:
  "heap_handlers st this = Some (ViewHandler h) \<Longrightarrow> m_sourceTables h = srcs \<Longrightarrow> srcs \<noteq> [] \<Longrightarrow>
   distinct (map fst srcs) \<Longrightarrow> dropAllSourceTables vp this st = Inr st1 \<Longrightarrow>
   \<exists>targets. heap_log st1 = heap_log st @ map2 Ev_dropViewHandler (map fst srcs) targets \<and>
     list_all2 (\<lambda>p target. \<exists>tb. heap_tables st (fst p) = Some tb \<and>
                  registered_as vp this h tb = Some target) srcs targets"
proof (induction srcs arbitrary: st h)
  case Nil
  then show ?case by simp
next
  case (Cons p rest)
  obtain t0 i0 where p: "p = (t0, i0)" by (cases p)
  note run = Cons.prems(5) [unfolded dropAllSourceTables.simps [of vp this st]]
  from run obtain st' where ds: "dropSourceTable vp this st = Inr st'"
    by (cases "dropSourceTable vp this st") simp_all
  from dropSourceTable_result [OF Cons.prems(1) _ ds, of t0 i0 rest] Cons.prems(2) p
  obtain tb0 target0 where tb0: "heap_tables st t0 = Some tb0"
    and r0: "registered_as vp this h tb0 = Some target0"
    and st': "st' = st\<lparr>heap_tables := (heap_tables st)
                      (t0 \<mapsto> tb0\<lparr>m_viewHandlers := remove1 target0 (m_viewHandlers tb0)\<rparr>),
                    heap_handlers := (heap_handlers st)
                      (this \<mapsto> ViewHandler (h\<lparr>m_sourceTables := rest\<rparr>)),
                    heap_log := heap_log st @ [Ev_dropViewHandler t0 target0]\<rparr>"
    by auto
  let ?h' = "h\<lparr>m_sourceTables := rest\<rparr>"
  let ?P = "\<lambda>st h p target. \<exists>tb. heap_tables st (fst p) = Some tb \<and>
                  registered_as vp this h tb = Some target"
  have h': "heap_handlers st' this = Some (ViewHandler ?h')" using st' by simp
  have left: "sourceTables_of this st' = rest" using h' by (simp add: sourceTables_of_def)
  have log': "heap_log st' = heap_log st @ [Ev_dropViewHandler t0 target0]" using st' by simp
  have first: "?P st h p target0" using p tb0 r0 by simp
  show ?case
  proof (cases "rest = []")
    case True
    with run ds left have "st1 = st'" by simp
    with log' True p first
    have "heap_log st1 = heap_log st @ map2 Ev_dropViewHandler (map fst (p # rest)) [target0] \<and>
          list_all2 (?P st h) (p # rest) [target0]"
      by simp
    then show ?thesis by blast
  next
    case False
    with run ds left have rec: "dropAllSourceTables vp this st' = Inr st1" by simp
    have dist: "distinct (map fst rest)" using Cons.prems(4) by simp
    have ms: "m_sourceTables ?h' = rest" by simp
    from Cons.IH [OF h' ms False dist rec] obtain targets where
      lg: "heap_log st1 = heap_log st' @ map2 Ev_dropViewHandler (map fst rest) targets"
      and al: "list_all2 (?P st' ?h') rest targets"
      by blast
    have "list_all2 (?P st h) rest targets"
    proof (rule list.rel_mono_strong [OF al])
      fix q target assume q: "q \<in> set rest" and x: "?P st' ?h' q target"
      from q Cons.prems(4) p have "fst q \<noteq> t0" by auto
      with st' have "heap_tables st' (fst q) = heap_tables st (fst q)" by simp
      with x show "?P st h q target" by simp
    qed
    with first have "list_all2 (?P st h) (p # rest) (target0 # targets)" by simp
    moreover from lg log' p
    have "heap_log st1 = heap_log st @ map2 Ev_dropViewHandler (map fst (p # rest)) (target0 # targets)"
      by simp
    ultimately show ?thesis by blast
  qed
qed

lemma delete_replicatedWrapper_log:
  assumes "delete_replicatedWrapper p st = Inr st1"
  shows "heap_log st1 = heap_log st @ (case p of None \<Rightarrow> [] | Some w \<Rightarrow> [Ev_delete w])"
  using assms
  by (auto simp: delete_replicatedWrapper_def free_handler_def
           split: option.splits handler_object.splits)

lemma delete_handler_log:
  assumes old: "heap_handlers st old = Some (ViewHandler oh)"
    and dist: "distinct (map fst (m_sourceTables oh))"
    and run: "delete_handler (Some old) st = Inr st1"
  shows "\<exists>targets.
           (\<forall>odt. heap_tables st (m_destTablePtr oh) = Some odt \<longrightarrow>
              list_all2 (\<lambda>p target. \<exists>tb. heap_tables st (fst p) = Some tb \<and>
                  registered_as (\<not> isCatalogTableReplicated odt) old oh tb = Some target)
                (m_sourceTables oh) targets) \<and>
           length targets = length (m_sourceTables oh) \<and>
           heap_log st1 = heap_log st @
             map2 Ev_dropViewHandler (map fst (m_sourceTables oh)) targets @
             (if m_sourceTables oh = [] then []
              else case m_replicatedWrapper oh of None \<Rightarrow> [] | Some w \<Rightarrow> [Ev_delete w]) @
             [Ev_delete old]"
proof (cases "m_sourceTables oh = []")
  case True
  with old run have "st1 = free_handler old st" by (simp add: delete_handler_def)
  with True have "heap_log st1 = heap_log st @ [Ev_delete old]" by (simp add: free_handler_def)
  with True show ?thesis by simp
next
  case False
  with old run obtain odt where odt: "heap_tables st (m_destTablePtr oh) = Some odt"
    by (cases "heap_tables st (m_destTablePtr oh)") (simp_all add: delete_handler_def)
  let ?vp = "\<not> isCatalogTableReplicated odt"
  from old run False odt obtain sta where da: "dropAllSourceTables ?vp old st = Inr sta"
    by (cases "dropAllSourceTables ?vp old st") (simp_all add: delete_handler_def)
  from old run False odt da obtain stb where
    dw: "delete_replicatedWrapper (m_replicatedWrapper oh) sta = Inr stb"
    by (cases "delete_replicatedWrapper (m_replicatedWrapper oh) sta")
       (simp_all add: delete_handler_def)
  from old run False odt da dw have st1: "st1 = free_handler old stb"
    by (simp add: delete_handler_def)
  from dropAllSourceTables_log [OF old refl False dist da] obtain targets where
    lg: "heap_log sta = heap_log st @ map2 Ev_dropViewHandler (map fst (m_sourceTables oh)) targets"
    and al: "list_all2 (\<lambda>p target. \<exists>tb. heap_tables st (fst p) = Some tb \<and>
                  registered_as ?vp old oh tb = Some target) (m_sourceTables oh) targets"
    by blast
  from al have len: "length targets = length (m_sourceTables oh)"
    by (simp add: list_all2_lengthD)
  from st1 delete_replicatedWrapper_log [OF dw] lg False
  have "heap_log st1 = heap_log st @
             map2 Ev_dropViewHandler (map fst (m_sourceTables oh)) targets @
             (if m_sourceTables oh = [] then []
              else case m_replicatedWrapper oh of None \<Rightarrow> [] | Some w \<Rightarrow> [Ev_delete w]) @
             [Ev_delete old]"
    by (simp add: free_handler_def)
  with al len odt show ?thesis by auto
qed

lemma addViewHandler_log:
  assumes "addViewHandler t v st = Inr st'"
  shows "heap_log st' = heap_log st @ [Ev_addViewHandler t v]"
  using assms by (auto simp: addViewHandler_def split: option.splits)

lemma addSourceTable_registers:
  assumes run: "addSourceTable vp t i this w pid st = Inr st'"
  shows "\<exists>v h h'. heap_log st' = heap_log st @ [Ev_addViewHandler t v] \<and>
           heap_handlers st this = Some (ViewHandler h) \<and>
           heap_handlers st' this = Some (ViewHandler h') \<and>
           (v = this \<or> v = w \<or> m_replicatedWrapper h = Some v) \<and>
           (m_replicatedWrapper h' = m_replicatedWrapper h \<or> m_replicatedWrapper h' = Some w)"
proof -
  from run obtain h where h: "heap_handlers st this = Some (ViewHandler h)"
    by (auto simp: addSourceTable_def split: option.splits handler_object.splits)
  from run h obtain tbs where tbs: "heap_tables st t = Some tbs"
    by (cases "heap_tables st t") (simp_all add: addSourceTable_def)
  let ?reg = "if vp = isCatalogTableReplicated tbs then
                (if \<not> vp then Inl AssertionFailed
                 else
                   (case m_replicatedWrapper h of
                      None \<Rightarrow>
                        (case addViewHandler t w
                                (st\<lparr>heap_handlers := (heap_handlers st)
                                     (w \<mapsto> ReplicatedViewHandler this pid)\<rparr>) of
                           Inl e \<Rightarrow> Inl e
                         | Inr st1 \<Rightarrow> Inr (st1, h\<lparr>m_replicatedWrapper := Some w\<rparr>))
                    | Some w' \<Rightarrow>
                        (case addViewHandler t w' st of
                           Inl e \<Rightarrow> Inl e
                         | Inr st1 \<Rightarrow> Inr (st1, h))))
              else
                (case addViewHandler t this st of
                   Inl e \<Rightarrow> Inl e
                 | Inr st1 \<Rightarrow> Inr (st1, h))"
  from run h tbs obtain st1 h1 where reg: "?reg = Inr (st1, h1)"
    by (cases ?reg) (auto simp: addSourceTable_def)
  have "\<exists>v. heap_log st1 = heap_log st @ [Ev_addViewHandler t v] \<and>
            (v = this \<or> v = w \<or> m_replicatedWrapper h = Some v) \<and>
            (m_replicatedWrapper h1 = m_replicatedWrapper h \<or> m_replicatedWrapper h1 = Some w)"
  proof -
    from reg obtain v st0 where av: "addViewHandler t v st0 = Inr st1"
      and st0: "heap_log st0 = heap_log st"
      and v: "v = this \<or> v = w \<or> m_replicatedWrapper h = Some v"
      and w: "m_replicatedWrapper h1 = m_replicatedWrapper h \<or> m_replicatedWrapper h1 = Some w"
      by (auto split: if_splits option.splits sum.splits)
    from addViewHandler_log [OF av] st0 v w show ?thesis by auto
  qed
  moreover from run h tbs reg
  have "heap_log st' = heap_log st1 \<and>
        (\<exists>srcs. heap_handlers st' this = Some (ViewHandler (h1\<lparr>m_sourceTables := srcs\<rparr>)))"
    by (auto simp: addSourceTable_def split: prod.splits if_splits)
  ultimately show ?thesis using h by auto
qed

lemma addSourceTables_registers:
  "addSourceTables vp srcs this w pid st = Inr st' \<Longrightarrow>
   \<exists>adds. length adds = length srcs \<and>
          heap_log st' = heap_log st @ map2 Ev_addViewHandler (map fst srcs) adds \<and>
          (\<forall>v \<in> set adds. v = this \<or> v = w \<or>
             (\<exists>h. heap_handlers st this = Some (ViewHandler h) \<and> m_replicatedWrapper h = Some v))"
proof (induction srcs arbitrary: st)
  case Nil
  then show ?case by simp
next
  case (Cons p srcs)
  obtain t i where p: "p = (t, i)" by (cases p)
  from Cons.prems(1) p obtain st1 where a: "addSourceTable vp t i this w pid st = Inr st1"
    and r: "addSourceTables vp srcs this w pid st1 = Inr st'"
    by (cases "addSourceTable vp t i this w pid st") simp_all
  from addSourceTable_registers [OF a] obtain v h h' where
    v: "heap_log st1 = heap_log st @ [Ev_addViewHandler t v]"
    and h: "heap_handlers st this = Some (ViewHandler h)"
    and h': "heap_handlers st1 this = Some (ViewHandler h')"
    and vr: "v = this \<or> v = w \<or> m_replicatedWrapper h = Some v"
    and wr: "m_replicatedWrapper h' = m_replicatedWrapper h \<or> m_replicatedWrapper h' = Some w"
    by blast
  from Cons.IH [OF r] obtain adds where
    len: "length adds = length srcs"
    and lg: "heap_log st' = heap_log st1 @ map2 Ev_addViewHandler (map fst srcs) adds"
    and ar: "\<forall>u \<in> set adds. u = this \<or> u = w \<or>
             (\<exists>h. heap_handlers st1 this = Some (ViewHandler h) \<and> m_replicatedWrapper h = Some u)"
    by blast
  have ar': "\<forall>u \<in> set (v # adds). u = this \<or> u = w \<or>
             (\<exists>h. heap_handlers st this = Some (ViewHandler h) \<and> m_replicatedWrapper h = Some u)"
  proof
    fix u assume "u \<in> set (v # adds)"
    then consider "u = v" | "u \<in> set adds" by auto
    then show "u = this \<or> u = w \<or>
             (\<exists>h. heap_handlers st this = Some (ViewHandler h) \<and> m_replicatedWrapper h = Some u)"
    proof cases
      case 1
      with vr h show ?thesis by auto
    next
      case 2
      with ar h' have "u = this \<or> u = w \<or> m_replicatedWrapper h' = Some u" by auto
      with wr h show ?thesis by auto
    qed
  qed
  from v p len lg have "length (v # adds) = length (p # srcs) \<and>
     heap_log st' = heap_log st @ map2 Ev_addViewHandler (map fst (p # srcs)) (v # adds)"
    by simp
  with ar' show ?case by blast
qed

text \<open>
  C10. A destination table has one \<open>m_mvHandler\<close> pointer. When \<^verbatim>\<open>install\<close>
  succeeds on a table that has a handler \<open>old\<close> installed, it has first deleted
  \<open>old\<close>: in the heap after that deletion the object \<open>old\<close> is gone, every source
  table of \<open>old\<close> has lost from its notify list the pointer \<open>old\<close> was registered
  under (\<open>old\<close> itself or its replicated wrapper; with no duplicate in the list the
  pointer is no longer in it), every other table is unchanged and no notify list has
  gained an entry. Only from that heap is the new handler made the table's
  \<open>m_mvHandler\<close> and added to its source tables, and it is the table's handler in
  the end. The log of the heap has the order of the steps: what \<^verbatim>\<open>install\<close> adds
  to it is one \<^verbatim>\<open>dropViewHandler\<close> for each source table of \<open>old\<close>, in the order
  of its map and with the pointer \<open>old\<close> was registered under, then the deletion of the
  wrapper of \<open>old\<close> (when \<open>old\<close> had source tables and a wrapper) and of
  \<open>old\<close>, then the assignment to \<open>m_mvHandler\<close>, and after all of these one
  \<^verbatim>\<open>addViewHandler\<close> for each source table of the new handler, with the new
  handler itself or its replicated wrapper (the one it has or the one created for it).
\<close>

theorem install_destroys_previous_handler_first:
  assumes "heap_handlers st this = Some (ViewHandler h)"
    and "heap_tables st (m_destTablePtr h) = Some dt"
    and "m_mvHandler dt = Some old"
    and "heap_handlers st old = Some (ViewHandler oh)"
    and "distinct (map fst (m_sourceTables oh))"
    and "install sourceTables this wrapper partitionId st = Inr st'"
  shows "\<exists>st1 dt1.
     delete_handler (Some old) st = Inr st1 \<and>
     heap_handlers st1 old = None \<and>
     (\<forall>t. t \<notin> fst ` set (m_sourceTables oh) \<longrightarrow> heap_tables st1 t = heap_tables st t) \<and>
     (m_sourceTables oh \<noteq> [] \<longrightarrow>
        (\<exists>odt. heap_tables st (m_destTablePtr oh) = Some odt \<and>
           (\<forall>t \<in> fst ` set (m_sourceTables oh). \<exists>tb target.
              heap_tables st t = Some tb \<and>
              registered_as (\<not> isCatalogTableReplicated odt) old oh tb = Some target \<and>
              heap_tables st1 t
                = Some (tb\<lparr>m_viewHandlers := remove1 target (m_viewHandlers tb)\<rparr>) \<and>
              (distinct (m_viewHandlers tb) \<longrightarrow>
                 target \<notin> set (remove1 target (m_viewHandlers tb)))))) \<and>
     (\<forall>t tb1. heap_tables st1 t = Some tb1 \<longrightarrow>
        (\<exists>tb. heap_tables st t = Some tb \<and> set (m_viewHandlers tb1) \<subseteq> set (m_viewHandlers tb))) \<and>
     heap_tables st1 (m_destTablePtr h) = Some dt1 \<and>
     addSourceTables (\<not> isCatalogTableReplicated dt1) sourceTables this wrapper partitionId
        (st1\<lparr>heap_tables := (heap_tables st1)
               (m_destTablePtr h \<mapsto> dt1\<lparr>m_mvHandler := Some this\<rparr>),
             heap_log := heap_log st1 @ [Ev_set_mvHandler (m_destTablePtr h) this]\<rparr>) = Inr st' \<and>
     (\<exists>dt'. heap_tables st' (m_destTablePtr h) = Some dt' \<and> m_mvHandler dt' = Some this) \<and>
     (\<exists>targets adds.
        (\<forall>odt. heap_tables st (m_destTablePtr oh) = Some odt \<longrightarrow>
           list_all2 (\<lambda>p target. \<exists>tb. heap_tables st (fst p) = Some tb \<and>
               registered_as (\<not> isCatalogTableReplicated odt) old oh tb = Some target)
             (m_sourceTables oh) targets) \<and>
        length targets = length (m_sourceTables oh) \<and>
        length adds = length sourceTables \<and>
        (\<forall>v \<in> set adds. v = this \<or> v = wrapper \<or>
           (\<exists>h1. heap_handlers st1 this = Some (ViewHandler h1) \<and>
                 m_replicatedWrapper h1 = Some v)) \<and>
        heap_log st' = heap_log st @
          map2 Ev_dropViewHandler (map fst (m_sourceTables oh)) targets @
          (if m_sourceTables oh = [] then []
           else case m_replicatedWrapper oh of None \<Rightarrow> [] | Some w \<Rightarrow> [Ev_delete w]) @
          [Ev_delete old, Ev_set_mvHandler (m_destTablePtr h) this] @
          map2 Ev_addViewHandler (map fst sourceTables) adds)"
proof -
  note run = assms(6) [unfolded install_def]
  from run assms(1,2,3) obtain st1 where del: "delete_handler (Some old) st = Inr st1"
    by (cases "delete_handler (Some old) st") simp_all
  from run assms(1,2,3) del obtain dt1 where dt1: "heap_tables st1 (m_destTablePtr h) = Some dt1"
    by (cases "heap_tables st1 (m_destTablePtr h)") simp_all
  let ?st2 = "st1\<lparr>heap_tables := (heap_tables st1)
               (m_destTablePtr h \<mapsto> dt1\<lparr>m_mvHandler := Some this\<rparr>),
             heap_log := heap_log st1 @ [Ev_set_mvHandler (m_destTablePtr h) this]\<rparr>"
  from run assms(1,2,3) del dt1
  have add: "addSourceTables (\<not> isCatalogTableReplicated dt1) sourceTables this wrapper
               partitionId ?st2 = Inr st'"
    by simp
  from delete_handler_result [OF assms(4,5) del]
  have gone: "heap_handlers st1 old = None"
    and same: "\<forall>t. t \<notin> fst ` set (m_sourceTables oh) \<longrightarrow> heap_tables st1 t = heap_tables st t"
    and dropped: "m_sourceTables oh \<noteq> [] \<longrightarrow>
            (\<exists>odt. heap_tables st (m_destTablePtr oh) = Some odt \<and>
               (\<forall>t \<in> fst ` set (m_sourceTables oh). \<exists>tb target.
                  heap_tables st t = Some tb \<and>
                  registered_as (\<not> isCatalogTableReplicated odt) old oh tb = Some target \<and>
                  target \<in> set (m_viewHandlers tb) \<and>
                  heap_tables st1 t
                    = Some (tb\<lparr>m_viewHandlers := remove1 target (m_viewHandlers tb)\<rparr>)))"
    by blast+
  have dropped': "m_sourceTables oh \<noteq> [] \<longrightarrow>
        (\<exists>odt. heap_tables st (m_destTablePtr oh) = Some odt \<and>
           (\<forall>t \<in> fst ` set (m_sourceTables oh). \<exists>tb target.
              heap_tables st t = Some tb \<and>
              registered_as (\<not> isCatalogTableReplicated odt) old oh tb = Some target \<and>
              heap_tables st1 t
                = Some (tb\<lparr>m_viewHandlers := remove1 target (m_viewHandlers tb)\<rparr>) \<and>
              (distinct (m_viewHandlers tb) \<longrightarrow>
                 target \<notin> set (remove1 target (m_viewHandlers tb)))))"
  proof
    assume "m_sourceTables oh \<noteq> []"
    with dropped obtain odt where o: "heap_tables st (m_destTablePtr oh) = Some odt"
      and d: "\<forall>t \<in> fst ` set (m_sourceTables oh). \<exists>tb target.
                  heap_tables st t = Some tb \<and>
                  registered_as (\<not> isCatalogTableReplicated odt) old oh tb = Some target \<and>
                  target \<in> set (m_viewHandlers tb) \<and>
                  heap_tables st1 t
                    = Some (tb\<lparr>m_viewHandlers := remove1 target (m_viewHandlers tb)\<rparr>)"
      by blast
    have "\<forall>t \<in> fst ` set (m_sourceTables oh). \<exists>tb target.
              heap_tables st t = Some tb \<and>
              registered_as (\<not> isCatalogTableReplicated odt) old oh tb = Some target \<and>
              heap_tables st1 t
                = Some (tb\<lparr>m_viewHandlers := remove1 target (m_viewHandlers tb)\<rparr>) \<and>
              (distinct (m_viewHandlers tb) \<longrightarrow>
                 target \<notin> set (remove1 target (m_viewHandlers tb)))"
    proof
      fix t assume "t \<in> fst ` set (m_sourceTables oh)"
      with d obtain tb target where
        x: "heap_tables st t = Some tb"
           "registered_as (\<not> isCatalogTableReplicated odt) old oh tb = Some target"
           "heap_tables st1 t
              = Some (tb\<lparr>m_viewHandlers := remove1 target (m_viewHandlers tb)\<rparr>)"
        by blast
      have "distinct (m_viewHandlers tb) \<longrightarrow> target \<notin> set (remove1 target (m_viewHandlers tb))"
        by simp
      with x show "\<exists>tb target.
              heap_tables st t = Some tb \<and>
              registered_as (\<not> isCatalogTableReplicated odt) old oh tb = Some target \<and>
              heap_tables st1 t
                = Some (tb\<lparr>m_viewHandlers := remove1 target (m_viewHandlers tb)\<rparr>) \<and>
              (distinct (m_viewHandlers tb) \<longrightarrow>
                 target \<notin> set (remove1 target (m_viewHandlers tb)))"
        by blast
    qed
    with o show "\<exists>odt. heap_tables st (m_destTablePtr oh) = Some odt \<and>
           (\<forall>t \<in> fst ` set (m_sourceTables oh). \<exists>tb target.
              heap_tables st t = Some tb \<and>
              registered_as (\<not> isCatalogTableReplicated odt) old oh tb = Some target \<and>
              heap_tables st1 t
                = Some (tb\<lparr>m_viewHandlers := remove1 target (m_viewHandlers tb)\<rparr>) \<and>
              (distinct (m_viewHandlers tb) \<longrightarrow>
                 target \<notin> set (remove1 target (m_viewHandlers tb))))"
      by blast
  qed
  have shrink: "\<forall>t tb1. heap_tables st1 t = Some tb1 \<longrightarrow>
        (\<exists>tb. heap_tables st t = Some tb \<and> set (m_viewHandlers tb1) \<subseteq> set (m_viewHandlers tb))"
  proof (intro allI impI)
    fix t tb1 assume t1: "heap_tables st1 t = Some tb1"
    show "\<exists>tb. heap_tables st t = Some tb \<and> set (m_viewHandlers tb1) \<subseteq> set (m_viewHandlers tb)"
    proof (cases "t \<in> fst ` set (m_sourceTables oh)")
      case False
      with same t1 show ?thesis by auto
    next
      case True
      then have "m_sourceTables oh \<noteq> []" by auto
      with dropped True obtain tb target where "heap_tables st t = Some tb"
        and "heap_tables st1 t = Some (tb\<lparr>m_viewHandlers := remove1 target (m_viewHandlers tb)\<rparr>)"
        by blast
      with t1 show ?thesis using set_remove1_subset [of target "m_viewHandlers tb"] by auto
    qed
  qed
  have "heap_tables ?st2 (m_destTablePtr h) = Some (dt1\<lparr>m_mvHandler := Some this\<rparr>)" by simp
  from addSourceTables_mvHandler [OF add this]
  have final: "\<exists>dt'. heap_tables st' (m_destTablePtr h) = Some dt' \<and> m_mvHandler dt' = Some this"
    by simp
  have order: "\<exists>targets adds.
        (\<forall>odt. heap_tables st (m_destTablePtr oh) = Some odt \<longrightarrow>
           list_all2 (\<lambda>p target. \<exists>tb. heap_tables st (fst p) = Some tb \<and>
               registered_as (\<not> isCatalogTableReplicated odt) old oh tb = Some target)
             (m_sourceTables oh) targets) \<and>
        length targets = length (m_sourceTables oh) \<and>
        length adds = length sourceTables \<and>
        (\<forall>v \<in> set adds. v = this \<or> v = wrapper \<or>
           (\<exists>h1. heap_handlers st1 this = Some (ViewHandler h1) \<and>
                 m_replicatedWrapper h1 = Some v)) \<and>
        heap_log st' = heap_log st @
          map2 Ev_dropViewHandler (map fst (m_sourceTables oh)) targets @
          (if m_sourceTables oh = [] then []
           else case m_replicatedWrapper oh of None \<Rightarrow> [] | Some w \<Rightarrow> [Ev_delete w]) @
          [Ev_delete old, Ev_set_mvHandler (m_destTablePtr h) this] @
          map2 Ev_addViewHandler (map fst sourceTables) adds"
  proof -
    from delete_handler_log [OF assms(4,5) del] obtain targets where
      reg: "\<forall>odt. heap_tables st (m_destTablePtr oh) = Some odt \<longrightarrow>
              list_all2 (\<lambda>p target. \<exists>tb. heap_tables st (fst p) = Some tb \<and>
                  registered_as (\<not> isCatalogTableReplicated odt) old oh tb = Some target)
                (m_sourceTables oh) targets"
      and len: "length targets = length (m_sourceTables oh)"
      and lg1: "heap_log st1 = heap_log st @
             map2 Ev_dropViewHandler (map fst (m_sourceTables oh)) targets @
             (if m_sourceTables oh = [] then []
              else case m_replicatedWrapper oh of None \<Rightarrow> [] | Some w \<Rightarrow> [Ev_delete w]) @
             [Ev_delete old]"
      by blast
    from addSourceTables_registers [OF add] obtain adds where
      la: "length adds = length sourceTables"
      and lg2: "heap_log st' = heap_log ?st2 @ map2 Ev_addViewHandler (map fst sourceTables) adds"
      and ar: "\<forall>v \<in> set adds. v = this \<or> v = wrapper \<or>
           (\<exists>h1. heap_handlers ?st2 this = Some (ViewHandler h1) \<and>
                 m_replicatedWrapper h1 = Some v)"
      by blast
    from ar have ar': "\<forall>v \<in> set adds. v = this \<or> v = wrapper \<or>
           (\<exists>h1. heap_handlers st1 this = Some (ViewHandler h1) \<and>
                 m_replicatedWrapper h1 = Some v)"
      by simp
    from lg1 lg2 have "heap_log st' = heap_log st @
          map2 Ev_dropViewHandler (map fst (m_sourceTables oh)) targets @
          (if m_sourceTables oh = [] then []
           else case m_replicatedWrapper oh of None \<Rightarrow> [] | Some w \<Rightarrow> [Ev_delete w]) @
          [Ev_delete old, Ev_set_mvHandler (m_destTablePtr h) this] @
          map2 Ev_addViewHandler (map fst sourceTables) adds"
      by simp
    with reg len la ar' show ?thesis by blast
  qed
  show ?thesis
    by (rule exI [of _ st1], rule exI [of _ dt1])
       (intro conjI del gone same dropped' shrink dt1 add final order)
qed

lemma sample_install_run:
  "\<exists>st'. install [(2, 0), (3, 1)] 200 201 0 sample_heap = Inr st'"
  by (simp add: install_def delete_handler_def dropAllSourceTables.simps dropSourceTable_def
        dropViewHandler_def sourceTables_of_def delete_replicatedWrapper_def free_handler_def
        addSourceTable_def addViewHandler_def sample_heap_def)

lemma sample_install_log:
  "map_sum id heap_log (install [(2, 0), (3, 1)] 200 201 0 sample_heap) =
     Inr [Ev_dropViewHandler 2 100, Ev_dropViewHandler 3 101, Ev_delete 101, Ev_delete 100,
          Ev_set_mvHandler 1 200, Ev_addViewHandler 2 200, Ev_addViewHandler 3 201]"
  by (simp add: install_def delete_handler_def dropAllSourceTables.simps dropSourceTable_def
        dropViewHandler_def sourceTables_of_def delete_replicatedWrapper_def free_handler_def
        addSourceTable_def addViewHandler_def sample_heap_def)

lemma sample_delete_run:
  "\<exists>st1. delete_handler (Some 100) sample_heap = Inr st1 \<and>
         heap_handlers st1 100 = None \<and> heap_handlers st1 101 = None \<and>
         map_option m_viewHandlers (heap_tables st1 2) = Some [] \<and>
         map_option m_viewHandlers (heap_tables st1 3) = Some []"
  by (simp add: delete_handler_def dropAllSourceTables.simps dropSourceTable_def
        dropViewHandler_def sourceTables_of_def delete_replicatedWrapper_def free_handler_def
        sample_heap_def)

theorem install_destroys_previous_handler_first_witness:
  "\<exists>st1 st'. delete_handler (Some 100) sample_heap = Inr st1 \<and>
         heap_handlers st1 100 = None \<and> heap_handlers st1 101 = None \<and>
         map_option m_viewHandlers (heap_tables st1 2) = Some [] \<and>
         map_option m_viewHandlers (heap_tables st1 3) = Some [] \<and>
         install [(2, 0), (3, 1)] 200 201 0 sample_heap = Inr st' \<and>
         map_option m_mvHandler (heap_tables st' 1) = Some (Some 200) \<and>
         heap_log st' =
           [Ev_dropViewHandler 2 100, Ev_dropViewHandler 3 101, Ev_delete 101, Ev_delete 100,
            Ev_set_mvHandler 1 200, Ev_addViewHandler 2 200, Ev_addViewHandler 3 201]"
proof -
  let ?h = "\<lparr>m_destTablePtr = 1, m_sourceTables = [], m_replicatedWrapper = None\<rparr>"
  let ?oh = "\<lparr>m_destTablePtr = 1, m_sourceTables = [(2, 0), (3, 1)],
              m_replicatedWrapper = Some 101\<rparr>"
  let ?dt = "\<lparr>m_mvHandler = Some 100, m_viewHandlers = [], isCatalogTableReplicated = False\<rparr>"
  obtain st' where run: "install [(2, 0), (3, 1)] 200 201 0 sample_heap = Inr st'"
    using sample_install_run by blast
  have a1: "heap_handlers sample_heap 200 = Some (ViewHandler ?h)"
    and a2: "heap_tables sample_heap (m_destTablePtr ?h) = Some ?dt"
    and a3: "m_mvHandler ?dt = Some 100"
    and a4: "heap_handlers sample_heap 100 = Some (ViewHandler ?oh)"
    and a5: "distinct (map fst (m_sourceTables ?oh))"
    by (simp_all add: sample_heap_def)
  from install_destroys_previous_handler_first [OF a1 a2 a3 a4 a5 run]
  have "\<exists>dt'. heap_tables st' (m_destTablePtr ?h) = Some dt' \<and> m_mvHandler dt' = Some 200"
    by (elim exE conjE, intro exI conjI) assumption+
  then obtain dt' where "heap_tables st' (m_destTablePtr ?h) = Some dt'" and "m_mvHandler dt' = Some 200"
    by blast
  then have fin: "map_option m_mvHandler (heap_tables st' 1) = Some (Some 200)" by simp
  from sample_install_log run have lg: "heap_log st' =
           [Ev_dropViewHandler 2 100, Ev_dropViewHandler 3 101, Ev_delete 101, Ev_delete 100,
            Ev_set_mvHandler 1 200, Ev_addViewHandler 2 200, Ev_addViewHandler 3 201]"
    by simp
  from sample_delete_run run fin lg show ?thesis by blast
qed

end
